(* ===== verification/Prelude.thy ===== *)
theory Prelude
  imports
    Main
    "HOL-Library.AList"
    "HOL-Library.List_Lexorder"
    "HOL-Library.Char_ord"
    "HOL-Library.Sublist"
    "HOL-Library.Multiset"
    "HOL-Library.Word"
begin

text \<open>
  The Go runtime as the components use it. Strings are byte strings (\<^typ>\<open>char\<close> is one
  byte), instants are nanoseconds since the Unix epoch, durations are nanoseconds, Go maps
  are association lists (the list order is the iteration order the runtime happens to
  choose), sorts are the stable insertion sort over the comparison the code passes.
\<close>

named_theorems gomap_simps \<open>lookup after each operation on a Go map\<close>

section \<open>Time\<close>

type_synonym time = int
type_synonym duration = int

definition zero_time :: time where
  "zero_time = -62135596800000000000"

definition second :: duration where
  "second = 1000000000"

definition minute :: duration where
  "minute = 60 * second"

definition hour :: duration where
  "hour = 60 * minute"

text \<open>\<open>t.Sub(u)\<close> saturates at the range of \<open>int64\<close>.\<close>

definition time_sub :: "time \<Rightarrow> time \<Rightarrow> duration" where
  "time_sub t u = max (- (2 ^ 63)) (min (2 ^ 63 - 1) (t - u))"

text \<open>\<open>int(d.Seconds())\<close>: truncation towards zero.\<close>

definition whole_seconds :: "duration \<Rightarrow> int" where
  "whole_seconds d = (if 0 \<le> d then d div second else - ((- d) div second))"

text \<open>\<open>t.UnixNano()\<close> is the instant as an \<open>int64\<close>, wrapping outside its range.\<close>

definition unix_nano :: "time \<Rightarrow> int" where
  "unix_nano t = sint (word_of_int t :: 64 word)"

definition int64_range :: "int \<Rightarrow> bool" where
  "int64_range i \<longleftrightarrow> - (2 ^ 63) \<le> i \<and> i < 2 ^ 63"

lemma unix_nano_id [simp]: "int64_range t \<Longrightarrow> unix_nano t = t"
  by (simp add: unix_nano_def int64_range_def sint_sbintrunc' signed_take_bit_int_eq_self)

lemma time_sub_exact: "int64_range (t - u) \<Longrightarrow> time_sub t u = t - u"
  by (simp add: time_sub_def int64_range_def)

lemma time_sub_le_iff:
  "- (2 ^ 63) \<le> d \<Longrightarrow> d < 2 ^ 63 - 1 \<Longrightarrow> time_sub t u \<le> d \<longleftrightarrow> t - u \<le> d"
  by (auto simp: time_sub_def)

section \<open>Strings\<close>

text \<open>
  The encodings of the code points \<open>unicode.IsSpace\<close> accepts. Trimming at either end drops
  one of these byte sequences at a time: a rune decoded at that end is a space exactly when
  the bytes there are its encoding.
\<close>

definition space_encodings :: "string list" where
  "space_encodings =
     [[CHR 0x09], [CHR 0x0A], [CHR 0x0B], [CHR 0x0C], [CHR 0x0D], [CHR 0x20],
      [CHR 0xC2, CHR 0x85], [CHR 0xC2, CHR 0xA0],
      [CHR 0xE1, CHR 0x9A, CHR 0x80],
      [CHR 0xE2, CHR 0x80, CHR 0x80], [CHR 0xE2, CHR 0x80, CHR 0x81],
      [CHR 0xE2, CHR 0x80, CHR 0x82], [CHR 0xE2, CHR 0x80, CHR 0x83],
      [CHR 0xE2, CHR 0x80, CHR 0x84], [CHR 0xE2, CHR 0x80, CHR 0x85],
      [CHR 0xE2, CHR 0x80, CHR 0x86], [CHR 0xE2, CHR 0x80, CHR 0x87],
      [CHR 0xE2, CHR 0x80, CHR 0x88], [CHR 0xE2, CHR 0x80, CHR 0x89],
      [CHR 0xE2, CHR 0x80, CHR 0x8A],
      [CHR 0xE2, CHR 0x80, CHR 0xA8], [CHR 0xE2, CHR 0x80, CHR 0xA9],
      [CHR 0xE2, CHR 0x80, CHR 0xAF], [CHR 0xE2, CHR 0x81, CHR 0x9F],
      [CHR 0xE3, CHR 0x80, CHR 0x80]]"

definition strip_one :: "string list \<Rightarrow> string \<Rightarrow> string option" where
  "strip_one ps s =
     (case find (\<lambda>p. prefix p s) ps of None \<Rightarrow> None | Some p \<Rightarrow> Some (drop (length p) s))"

function strip_all :: "string list \<Rightarrow> string \<Rightarrow> string" where
  "strip_all ps s =
     (case strip_one ps s of
        None \<Rightarrow> s
      | Some t \<Rightarrow> if length t < length s then strip_all ps t else s)"
  by pat_completeness auto
termination
  by (relation "measure (\<lambda>(ps, s). length s)") auto

declare strip_all.simps [simp del]

definition trim_left :: "string \<Rightarrow> string" where
  "trim_left s = strip_all space_encodings s"

definition trim_right :: "string \<Rightarrow> string" where
  "trim_right s = rev (strip_all (map rev space_encodings) (rev s))"

definition trim :: "string \<Rightarrow> string" where
  "trim s = trim_right (trim_left s)"

lemma strip_one_None: "strip_one ps s = None \<longleftrightarrow> (\<forall>p\<in>set ps. \<not> prefix p s)"
proof (cases "find (\<lambda>p. prefix p s) ps")
  case None
  then show ?thesis using find_None_iff [of "\<lambda>p. prefix p s" ps] by (simp add: strip_one_def)
next
  case (Some p)
  then have "p \<in> set ps \<and> prefix p s" by (auto simp: find_Some_iff)
  with Some show ?thesis by (auto simp: strip_one_def)
qed

lemma strip_one_shorter:
  assumes "strip_one ps s = Some t" and "\<forall>p\<in>set ps. p \<noteq> []"
  shows "length t < length s"
proof -
  from assms(1) obtain p where "find (\<lambda>p. prefix p s) ps = Some p" and t: "t = drop (length p) s"
    by (auto simp: strip_one_def split: option.splits)
  then have "p \<in> set ps" "prefix p s" by (auto simp: find_Some_iff)
  with assms(2) have "0 < length p" "length p \<le> length s" by (auto simp: prefix_length_le)
  then show ?thesis unfolding t length_drop by linarith
qed

lemma strip_all_stops: "\<forall>p\<in>set ps. p \<noteq> [] \<Longrightarrow> strip_one ps (strip_all ps s) = None"
proof (induction ps s rule: strip_all.induct)
  case (1 ps s)
  show ?case
  proof (cases "strip_one ps s")
    case None
    then show ?thesis by (simp add: strip_all.simps [of ps s])
  next
    case (Some t)
    with 1 show ?thesis by (simp add: strip_all.simps [of ps s] strip_one_shorter)
  qed
qed

lemma strip_all_id: "strip_one ps s = None \<Longrightarrow> strip_all ps s = s"
  by (simp add: strip_all.simps)

lemma suffix_strip_all: "suffix (strip_all ps s) s"
proof (induction ps s rule: strip_all.induct)
  case (1 ps s)
  have "strip_one ps s = Some t \<Longrightarrow> suffix t s" for t
    by (auto simp: strip_one_def suffix_drop split: option.splits)
  with 1 show ?case
    by (auto simp: strip_all.simps [of ps s] split: option.split intro: suffix_order.trans)
qed

lemma space_encodings_nonempty: "\<forall>p\<in>set space_encodings. p \<noteq> []"
  by (simp add: space_encodings_def)

lemma trim_left_stops: "\<forall>p\<in>set space_encodings. \<not> prefix p (trim_left s)"
  using strip_all_stops [OF space_encodings_nonempty, of s]
  by (simp add: trim_left_def strip_one_None)

lemma trim_right_stops: "strip_one (map rev space_encodings) (rev (trim_right s)) = None"
proof -
  have "\<forall>p\<in>set (map rev space_encodings). p \<noteq> []" using space_encodings_nonempty by simp
  from strip_all_stops [OF this, of "rev s"] show ?thesis by (simp add: trim_right_def)
qed

lemma prefix_trim_right: "prefix (trim_right s) s"
  using suffix_strip_all [of "map rev space_encodings" "rev s"]
  by (simp add: trim_right_def suffix_to_prefix)

lemma trim_idem [simp]: "trim (trim s) = trim s"
proof -
  have "\<forall>p\<in>set space_encodings. \<not> prefix p (trim s)"
    using trim_left_stops [of s] prefix_trim_right [of "trim_left s"]
    by (auto simp: trim_def dest: prefix_order.trans)
  then have "trim_left (trim s) = trim s"
    by (simp add: trim_left_def strip_all_id strip_one_None)
  moreover have "trim_right (trim_right t) = trim_right t" for t
    using strip_all_id [OF trim_right_stops [of t]] by (simp add: trim_right_def [of "trim_right t"])
  ultimately show ?thesis by (simp add: trim_def)
qed

text \<open>Strings of visible ASCII characters (hexadecimal ids among them) are left alone.\<close>

definition visible :: "string \<Rightarrow> bool" where
  "visible s \<longleftrightarrow> (\<forall>c\<in>set s. 33 \<le> (of_char c :: nat) \<and> of_char c \<le> (126 :: nat))"

lemma visible_simps [simp]:
  "visible []"
  "visible (c # s) \<longleftrightarrow> 33 \<le> (of_char c :: nat) \<and> of_char c \<le> (126 :: nat) \<and> visible s"
  "visible (s @ t) \<longleftrightarrow> visible s \<and> visible t"
  "visible (rev s) \<longleftrightarrow> visible s"
  by (auto simp: visible_def)

lemma visible_no_space:
  assumes "visible s" and "p \<in> set space_encodings \<union> set (map rev space_encodings)"
  shows "\<not> prefix p s"
proof
  assume "prefix p s"
  then have "set p \<subseteq> set s" by (auto simp: prefix_def)
  with assms(1) have "visible p" by (auto simp: visible_def)
  moreover have "\<forall>q\<in>set space_encodings. \<not> visible q" by (simp add: space_encodings_def)
  then have "\<forall>q\<in>set (map rev space_encodings). \<not> visible q" by simp
  ultimately show False
    using assms(2) \<open>\<forall>q\<in>set space_encodings. \<not> visible q\<close> by blast
qed

lemma trim_visible [simp]: "visible s \<Longrightarrow> trim s = s"
  by (simp add: trim_def trim_left_def trim_right_def strip_all_id strip_one_None
      visible_no_space)

lemma trim_empty [simp]: "trim [] = []"
  by simp

definition ascii_lower :: "string \<Rightarrow> string" where
  "ascii_lower = map (\<lambda>c. if 65 \<le> (of_char c :: nat) \<and> of_char c \<le> (90 :: nat)
                          then char_of (of_char c + 32 :: nat) else c)"

definition ascii_upper :: "string \<Rightarrow> string" where
  "ascii_upper = map (\<lambda>c. if 97 \<le> (of_char c :: nat) \<and> of_char c \<le> (122 :: nat)
                          then char_of (of_char c - 32 :: nat) else c)"

text \<open>\<open>strings.Cut\<close>, \<open>strings.Split\<close> and \<open>strings.Join\<close> at a one-byte separator.\<close>

fun cut_at :: "char \<Rightarrow> string \<Rightarrow> (string \<times> string) option" where
  "cut_at c [] = None"
| "cut_at c (x # xs) =
     (if x = c then Some ([], xs) else map_option (\<lambda>(a, b). (x # a, b)) (cut_at c xs))"

fun split_at :: "char \<Rightarrow> string \<Rightarrow> string list" where
  "split_at c [] = [[]]"
| "split_at c (x # xs) =
     (if x = c then [] # split_at c xs
      else (case split_at c xs of [] \<Rightarrow> [[x]] | p # ps \<Rightarrow> (x # p) # ps))"

fun join :: "string \<Rightarrow> string list \<Rightarrow> string" where
  "join sep [] = []"
| "join sep [s] = s"
| "join sep (s # t # ss) = s @ sep @ join sep (t # ss)"

lemma cut_at_append: "c \<notin> set a \<Longrightarrow> cut_at c (a @ c # b) = Some (a, b)"
  by (induction a) auto

lemma cut_at_SomeD: "cut_at c s = Some (a, b) \<Longrightarrow> s = a @ c # b \<and> c \<notin> set a"
  by (induction s arbitrary: a) (auto split: if_splits)

lemma split_at_nonempty [simp]: "split_at c s \<noteq> []"
  by (induction s) (auto split: list.splits)

lemma join_split: "join [c] (split_at c s) = s"
proof (induction s)
  case (Cons x s)
  then show ?case
    by (cases "split_at c s"; cases "tl (split_at c s)") (auto split: list.splits)
qed simp

lemma split_at_append: "split_at c (a @ c # b) = split_at c a @ split_at c b"
  by (induction a) (auto split: list.splits)

lemma split_at_single: "c \<notin> set a \<Longrightarrow> split_at c a = [a]"
  by (induction a) auto

lemma split_join: "ps \<noteq> [] \<Longrightarrow> \<forall>p\<in>set ps. c \<notin> set p \<Longrightarrow> split_at c (join [c] ps) = ps"
  by (induction "[c]" ps rule: join.induct) (auto simp: split_at_append split_at_single)

lemma split_at_parts: "p \<in> set (split_at c s) \<Longrightarrow> c \<notin> set p"
  by (induction s arbitrary: p) (auto split: list.splits if_splits)

text \<open>\<open>filepath.Clean\<close> on Unix; \<open>parts\<close> is the cleaned path so far, last component first.\<close>

fun clean_parts :: "bool \<Rightarrow> string list \<Rightarrow> string list \<Rightarrow> string list" where
  "clean_parts rooted parts [] = rev parts"
| "clean_parts rooted parts (c # cs) =
     (if c = [] \<or> c = ''.'' then clean_parts rooted parts cs
      else if c = ''..'' then
        (if parts \<noteq> [] \<and> hd parts \<noteq> ''..'' then clean_parts rooted (tl parts) cs
         else if rooted then clean_parts rooted parts cs
         else clean_parts rooted (c # parts) cs)
      else clean_parts rooted (c # parts) cs)"

definition path_clean :: "string \<Rightarrow> string" where
  "path_clean p =
     (let rooted = (p \<noteq> [] \<and> hd p = CHR ''/'');
          body = join ''/'' (clean_parts rooted [] (split_at CHR ''/'' p))
      in if rooted then CHR ''/'' # body else if body = [] then ''.'' else body)"

section \<open>Numbers in decimal\<close>

text \<open>\<open>strconv.FormatInt(i, 10)\<close>, \<open>strconv.Itoa\<close>, and \<open>strconv.ParseInt(s, 10, 64)\<close>,
  \<open>strconv.Atoi\<close>: an optional sign, digits only, and a value in the range of \<open>int64\<close>.\<close>

fun dec_nat :: "nat \<Rightarrow> string" where
  "dec_nat n = (if n < 10 then [char_of (48 + n)]
                else dec_nat (n div 10) @ [char_of (48 + n mod 10)])"

declare dec_nat.simps [simp del]

definition format_int :: "int \<Rightarrow> string" where
  "format_int i = (if i < 0 then CHR ''-'' # dec_nat (nat (- i)) else dec_nat (nat i))"

fun digits_val :: "nat \<Rightarrow> string \<Rightarrow> nat option" where
  "digits_val acc [] = Some acc"
| "digits_val acc (c # cs) =
     (if 48 \<le> (of_char c :: nat) \<and> of_char c \<le> (57 :: nat)
      then digits_val (acc * 10 + (of_char c - 48)) cs else None)"

definition parse_int :: "string \<Rightarrow> int option" where
  "parse_int s =
     (let neg = (s \<noteq> [] \<and> hd s = CHR ''-'');
          ds = (if s \<noteq> [] \<and> (hd s = CHR ''-'' \<or> hd s = CHR ''+'') then tl s else s)
      in if ds = [] then None
         else (case digits_val 0 ds of
                 None \<Rightarrow> None
               | Some n \<Rightarrow> (let i = (if neg then - int n else int n)
                           in if int64_range i then Some i else None)))"

lemma digits_val_append:
  "digits_val acc (a @ b) = (case digits_val acc a of None \<Rightarrow> None | Some n \<Rightarrow> digits_val n b)"
  by (induction a arbitrary: acc) auto

lemma digits_val_dec_nat: "digits_val 0 (dec_nat n) = Some n"
proof (induction n rule: dec_nat.induct)
  case (1 n)
  then show ?case
    by (subst dec_nat.simps) (auto simp: digits_val_append)
qed

lemma dec_nat_digits: "c \<in> set (dec_nat n) \<Longrightarrow> 48 \<le> (of_char c :: nat) \<and> of_char c \<le> (57 :: nat)"
proof (induction n rule: dec_nat.induct)
  case (1 n)
  show ?case
  proof (cases "n < 10")
    case True
    with "1.prems" show ?thesis by (subst (asm) dec_nat.simps) auto
  next
    case False
    with "1.prems" have "c \<in> set (dec_nat (n div 10)) \<or> c = char_of (48 + n mod 10)"
      by (subst (asm) dec_nat.simps) auto
    with "1.IH" False show ?thesis by fastforce
  qed
qed

lemma dec_nat_nonempty [simp]: "dec_nat n \<noteq> []"
  by (subst dec_nat.simps) auto

lemma visible_format_int [simp]: "visible (format_int i)"
  using dec_nat_digits by (fastforce simp: format_int_def visible_def)

lemma format_int_chars: "c \<in> set (format_int i) \<Longrightarrow> c = CHR ''-'' \<or> 48 \<le> (of_char c :: nat) \<and> of_char c \<le> (57 :: nat)"
  by (auto simp: format_int_def dest: dec_nat_digits split: if_splits)

lemma parse_format_int: "int64_range i \<Longrightarrow> parse_int (format_int i) = Some i"
proof -
  assume i: "int64_range i"
  have nosign: "hd (dec_nat n) \<noteq> CHR ''-'' \<and> hd (dec_nat n) \<noteq> CHR ''+''" for n
    using dec_nat_digits [of "hd (dec_nat n)" n] by auto
  show ?thesis
  proof (cases "i < 0")
    case True
    then show ?thesis using i by (simp add: parse_int_def format_int_def digits_val_dec_nat)
  next
    case False
    then show ?thesis using i nosign [of "nat i"]
      by (simp add: parse_int_def format_int_def digits_val_dec_nat)
  qed
qed

section \<open>Go maps\<close>

type_synonym 'v gomap = "(string \<times> 'v) list"

definition wf_map :: "('k \<times> 'v) list \<Rightarrow> bool" where
  "wf_map m \<longleftrightarrow> distinct (map fst m)"

definition put :: "'k \<Rightarrow> 'v \<Rightarrow> ('k \<times> 'v) list \<Rightarrow> ('k \<times> 'v) list" where
  "put k v m = AList.update k v m"

definition del :: "'k \<Rightarrow> ('k \<times> 'v) list \<Rightarrow> ('k \<times> 'v) list" where
  "del k m = AList.delete k m"

text \<open>A \<open>range\<close> loop that rewrites the entries, and one that deletes some of them.\<close>

definition map_vals :: "('k \<Rightarrow> 'v \<Rightarrow> 'w) \<Rightarrow> ('k \<times> 'v) list \<Rightarrow> ('k \<times> 'w) list" where
  "map_vals f m = map (\<lambda>(k, v). (k, f k v)) m"

definition keep :: "('k \<Rightarrow> 'v \<Rightarrow> bool) \<Rightarrow> ('k \<times> 'v) list \<Rightarrow> ('k \<times> 'v) list" where
  "keep P m = filter (\<lambda>(k, v). P k v) m"

definition vals :: "('k \<times> 'v) list \<Rightarrow> 'v list" where
  "vals m = map snd m"

text \<open>\<open>m[k]\<close> with the zero value of the element type.\<close>

definition look :: "'v \<Rightarrow> ('k \<times> 'v) list \<Rightarrow> 'k \<Rightarrow> 'v" where
  "look zero m k = (case map_of m k of None \<Rightarrow> zero | Some v \<Rightarrow> v)"

lemma map_of_put [simp, gomap_simps]: "map_of (put k v m) = (map_of m)(k \<mapsto> v)"
  by (simp add: put_def update_conv')

lemma map_of_del [simp, gomap_simps]: "map_of (del k m) = (map_of m)(k := None)"
  by (simp add: del_def delete_conv')

lemma map_of_map_vals [simp, gomap_simps]:
  "map_of (map_vals f m) k = map_option (f k) (map_of m k)"
  by (induction m) (auto simp: map_vals_def)

lemma map_of_keep [gomap_simps]:
  "wf_map m \<Longrightarrow> map_of (keep P m) k = (case map_of m k of None \<Rightarrow> None | Some v \<Rightarrow> if P k v then Some v else None)"
proof (induction m)
  case (Cons a m)
  obtain k' v' where a: "a = (k', v')" by force
  from Cons.prems a have fresh: "map_of m k' = None" and wf: "wf_map m"
    by (auto simp: wf_map_def map_of_eq_None_iff)
  show ?case using Cons.IH [OF wf] fresh by (auto simp: a keep_def split: option.split)
qed (simp add: keep_def)

lemma wf_empty [simp]: "wf_map []"
  by (simp add: wf_map_def)

lemma wf_put [simp]: "wf_map m \<Longrightarrow> wf_map (put k v m)"
  by (simp add: wf_map_def put_def distinct_update)

lemma wf_del [simp]: "wf_map m \<Longrightarrow> wf_map (del k m)"
  by (simp add: wf_map_def del_def distinct_delete)

lemma wf_map_vals [simp]: "wf_map (map_vals f m) = wf_map m"
  by (simp add: wf_map_def map_vals_def comp_def case_prod_beta)

lemma wf_keep [simp]: "wf_map m \<Longrightarrow> wf_map (keep P m)"
  by (auto simp: wf_map_def keep_def distinct_map inj_on_def)

lemma in_set_iff_map_of: "wf_map m \<Longrightarrow> (k, v) \<in> set m \<longleftrightarrow> map_of m k = Some v"
  by (simp add: wf_map_def)

lemma set_vals: "wf_map m \<Longrightarrow> v \<in> set (vals m) \<longleftrightarrow> (\<exists>k. map_of m k = Some v)"
  by (force simp: vals_def in_set_iff_map_of [symmetric])

section \<open>Sorting\<close>

text \<open>
  \<open>sort.SliceStable\<close> with the comparison the code passes. \<open>slices.SortFunc\<close> and
  \<open>sort.Slice\<close> promise no stability; where the code uses them the sort keys are unique
  or the theorems speak about any order of equal elements.
\<close>

fun insert_by :: "('a \<Rightarrow> 'a \<Rightarrow> bool) \<Rightarrow> 'a \<Rightarrow> 'a list \<Rightarrow> 'a list" where
  "insert_by lt x [] = [x]"
| "insert_by lt x (y # ys) = (if lt y x then y # insert_by lt x ys else x # y # ys)"

definition sort_by :: "('a \<Rightarrow> 'a \<Rightarrow> bool) \<Rightarrow> 'a list \<Rightarrow> 'a list" where
  "sort_by lt xs = foldr (insert_by lt) xs []"

lemma mset_insert_by [simp]: "mset (insert_by lt x xs) = {#x#} + mset xs"
  by (induction xs) auto

lemma mset_sort_by [simp]: "mset (sort_by lt xs) = mset xs"
  by (induction xs) (auto simp: sort_by_def)

lemma set_sort_by [simp]: "set (sort_by lt xs) = set xs"
  by (metis mset_sort_by set_mset_mset)

lemma length_sort_by [simp]: "length (sort_by lt xs) = length xs"
  by (metis mset_sort_by size_mset)

lemma distinct_sort_by [simp]: "distinct (sort_by lt xs) = distinct xs"
  by (metis distinct_count_atmost_1 mset_sort_by set_sort_by)

text \<open>The contract a sort asks of its comparison: a strict weak order.\<close>

locale comparison =
  fixes lt :: "'a \<Rightarrow> 'a \<Rightarrow> bool"
  assumes asym: "lt x y \<Longrightarrow> \<not> lt y x"
    and neg_trans: "\<not> lt x y \<Longrightarrow> \<not> lt y z \<Longrightarrow> \<not> lt x z"
begin

lemma sorted_insert_by:
  "sorted_wrt (\<lambda>x y. \<not> lt y x) xs \<Longrightarrow> sorted_wrt (\<lambda>x y. \<not> lt y x) (insert_by lt x xs)"
proof (induction xs)
  case (Cons y ys)
  have in_insert: "z \<in> set (insert_by lt x ys) \<longleftrightarrow> z = x \<or> z \<in> set ys" for z
    by (metis mset_insert_by set_mset_mset set_mset_add_mset_insert add_mset_add_single
        insert_iff union_commute)
  show ?case
    using Cons by (auto simp: in_insert dest: asym neg_trans)
qed simp

lemma sorted_sort_by: "sorted_wrt (\<lambda>x y. \<not> lt y x) (sort_by lt xs)"
  by (induction xs) (auto simp: sort_by_def sorted_insert_by)

text \<open>Where distinct elements are comparable the result depends on the elements only, not on
  the order they came in (that of a map iteration, say).\<close>

lemma sorted_unique:
  assumes "mset xs = mset ys"
    and "sorted_wrt (\<lambda>x y. \<not> lt y x) xs" "sorted_wrt (\<lambda>x y. \<not> lt y x) ys"
    and tot: "\<And>x y. x \<in> set xs \<Longrightarrow> y \<in> set xs \<Longrightarrow> \<not> lt x y \<Longrightarrow> \<not> lt y x \<Longrightarrow> x = y"
  shows "xs = ys"
  using assms
proof (induction xs arbitrary: ys)
  case (Cons x xs)
  from Cons.prems(1) have len: "length ys = Suc (length xs)" by (metis length_Cons size_mset)
  then obtain y ys' where ys: "ys = y # ys'" by (cases ys) auto
  have sets: "set (x # xs) = set ys" using Cons.prems(1) by (metis set_mset_mset)
  have "x = y"
  proof (rule ccontr)
    assume "x \<noteq> y"
    with sets ys have "x \<in> set ys'" "y \<in> set xs" by auto
    with Cons.prems(2,3) ys have "\<not> lt y x" "\<not> lt x y" by auto
    with Cons.prems(4) \<open>y \<in> set xs\<close> \<open>x \<noteq> y\<close> show False by auto
  qed
  moreover from this Cons.prems(1) ys have "mset xs = mset ys'" by simp
  ultimately show ?case
    using Cons.IH [of ys'] Cons.prems(2-4) ys by auto
qed simp

lemma sort_by_perm:
  assumes "mset xs = mset ys"
    and "\<And>x y. x \<in> set xs \<Longrightarrow> y \<in> set xs \<Longrightarrow> \<not> lt x y \<Longrightarrow> \<not> lt y x \<Longrightarrow> x = y"
  shows "sort_by lt xs = sort_by lt ys"
  by (rule sorted_unique) (use assms in \<open>auto simp: sorted_sort_by\<close>)

end

text \<open>Comparison by a string key, \<open>strings.Compare(a.K, b.K)\<close>.\<close>

definition less_on :: "('a \<Rightarrow> string) \<Rightarrow> 'a \<Rightarrow> 'a \<Rightarrow> bool" where
  "less_on f x y \<longleftrightarrow> f x < f y"

interpretation by_key: comparison "less_on f" for f
  by unfold_locales (auto simp: less_on_def)

definition sort_on :: "('a \<Rightarrow> string) \<Rightarrow> 'a list \<Rightarrow> 'a list" where
  "sort_on f = sort_by (less_on f)"

lemma sort_on_perm: "mset xs = mset ys \<Longrightarrow> inj_on f (set xs) \<Longrightarrow> sort_on f xs = sort_on f ys"
  unfolding sort_on_def
  by (rule by_key.sort_by_perm) (auto simp: less_on_def inj_on_def)

lemma sort_on_simps [simp]:
  "set (sort_on f xs) = set xs" "length (sort_on f xs) = length xs"
  "mset (sort_on f xs) = mset xs" "distinct (sort_on f xs) = distinct xs"
  by (simp_all add: sort_on_def)

lemma sorted_sort_on: "sorted (map f (sort_on f xs))"
proof -
  have "sorted_wrt (\<lambda>x y. f x \<le> f y) (sort_on f xs)"
    using by_key.sorted_sort_by [of f xs]
    by (simp add: sort_on_def less_on_def not_less)
  then show ?thesis by (simp add: sorted_wrt_map)
qed

lemma find_SomeD: "find P xs = Some x \<Longrightarrow> x \<in> set xs \<and> P x"
  by (induction xs) (auto split: if_splits)

section \<open>Fallible operations\<close>

text \<open>\<open>Inl\<close> is an error return, \<open>Inr\<close> a normal one.\<close>

definition bind_r :: "'e + 'a \<Rightarrow> ('a \<Rightarrow> 'e + 'b) \<Rightarrow> 'e + 'b" where
  "bind_r r f = (case r of Inl e \<Rightarrow> Inl e | Inr a \<Rightarrow> f a)"

lemma bind_r_simps [simp]:
  "bind_r (Inl e) f = Inl e" "bind_r (Inr a) f = f a"
  by (simp_all add: bind_r_def)

lemma bind_r_InrE: "bind_r r f = Inr b \<Longrightarrow> (\<And>a. r = Inr a \<Longrightarrow> f a = Inr b \<Longrightarrow> P) \<Longrightarrow> P"
  by (cases r) auto

fun check_all :: "('a \<Rightarrow> 'e option) \<Rightarrow> 'a list \<Rightarrow> 'e option" where
  "check_all f [] = None"
| "check_all f (x # xs) = (case f x of Some e \<Rightarrow> Some e | None \<Rightarrow> check_all f xs)"

lemma check_all_None: "check_all f xs = None \<longleftrightarrow> (\<forall>x\<in>set xs. f x = None)"
  by (induction xs) (auto split: option.splits)

section \<open>Things that happen at most once\<close>

text \<open>\<open>run_all\<close> lists the results of a sequence of steps and the state after them.\<close>

fun run_all :: "('op \<Rightarrow> 's \<Rightarrow> 'r \<times> 's) \<Rightarrow> 'op list \<Rightarrow> 's \<Rightarrow> ('op \<times> 'r) list \<times> 's" where
  "run_all step [] s = ([], s)"
| "run_all step (x # xs) s =
     (let (r, s') = step x s; (rs, s'') = run_all step xs s' in ((x, r) # rs, s''))"

text \<open>The contract behind every single-use claim: what is \<open>spent\<close> stays so, and a success both needs
  it unspent and leaves it spent.\<close>

locale single_use =
  fixes step :: "'op \<Rightarrow> 's \<Rightarrow> 'r \<times> 's"
    and armed :: "'s \<Rightarrow> bool" and spent :: "'s \<Rightarrow> bool" and success :: "'op \<Rightarrow> 'r \<Rightarrow> bool"
  assumes armed_step: "armed s \<Longrightarrow> armed (snd (step x s))"
    and spent_step: "armed s \<Longrightarrow> spent s \<Longrightarrow> spent (snd (step x s))"
    and success_spends: "armed s \<Longrightarrow> success x (fst (step x s)) \<Longrightarrow> \<not> spent s \<and> spent (snd (step x s))"
begin

lemma run_armed: "armed s \<Longrightarrow> armed (snd (run_all step xs s))"
proof (induction xs arbitrary: s)
  case (Cons x xs)
  with armed_step [of s x] show ?case by (auto simp: split_beta)
qed simp

lemma none_when_spent:
  "armed s \<Longrightarrow> spent s \<Longrightarrow> filter (\<lambda>xr. success (fst xr) (snd xr)) (fst (run_all step xs s)) = []"
proof (induction xs arbitrary: s)
  case (Cons x xs)
  with armed_step [of s x] spent_step [of s x] success_spends [of s x] show ?case
    by (auto simp: split_beta)
qed simp

lemma at_most_once:
  "armed s \<Longrightarrow> length (filter (\<lambda>xr. success (fst xr) (snd xr)) (fst (run_all step xs s))) \<le> 1"
proof (induction xs arbitrary: s)
  case (Cons x xs)
  show ?case
  proof (cases "success x (fst (step x s))")
    case True
    with Cons.prems armed_step [of s x] success_spends [of s x] none_when_spent [of "snd (step x s)" xs]
    show ?thesis by (simp add: split_beta)
  next
    case False
    with Cons.IH [of "snd (step x s)"] Cons.prems armed_step [of s x] show ?thesis
      by (simp add: split_beta)
  qed
qed simp

end

end
