(* ===== verification/Leases.thy ===== *)
theory Leases
  imports Prelude
begin

text \<open>
  \<^verbatim>\<open>internal/leases/leases.go\<close>: filtering, ordering and cursor pagination of leases.
  The sorted and filtered list is \<open>selected_leases\<close>; the theorems say that the pages a
  client collects by following \<open>next_cursor\<close> are exactly that list.
\<close>

record lease =
  lease_id :: string
  secret_id :: string
  consumer_id :: string
  granted_at :: time
  expires_at :: time
  last_used_at :: time
  lease_scope :: string
  lease_status :: string

record lease_options =
  lo_consumer :: string
  lo_status :: string
  lo_expiring_in :: duration
  lo_cursor :: string
  lo_limit :: int
  lo_now :: time

record lease_response =
  lr_leases :: "lease list"
  lr_total :: nat
  lr_has_more :: bool
  lr_next_cursor :: string

definition default_limit :: nat where
  "default_limit = 100"

definition lease_limit :: "int \<Rightarrow> nat" where
  "lease_limit n = (if n \<le> 0 then default_limit
                    else if int default_limit < n then default_limit else nat n)"

definition lease_kept :: "time \<Rightarrow> lease_options \<Rightarrow> lease \<Rightarrow> bool" where
  "lease_kept now opts l =
     (let consumer = trim (lo_consumer opts); status = trim (lo_status opts) in
      if consumer \<noteq> [] \<and> consumer_id l \<noteq> consumer then False
      else if status \<noteq> [] \<and> lease_status l \<noteq> status then False
      else if 0 < lo_expiring_in opts then
        (if lease_status l \<noteq> ''active'' then False
         else if expires_at l < now \<or> now + lo_expiring_in opts < expires_at l then False
         else True)
      else True)"

definition lease_less :: "lease \<Rightarrow> lease \<Rightarrow> bool" where
  "lease_less a b =
     (if granted_at a = granted_at b then lease_id a < lease_id b
      else granted_at b < granted_at a)"

definition stable_cursor :: "lease \<Rightarrow> string" where
  "stable_cursor l = format_int (unix_nano (granted_at l)) @ ''|'' @ lease_id l"

fun find_index :: "('a \<Rightarrow> bool) \<Rightarrow> 'a list \<Rightarrow> nat option" where
  "find_index P [] = None"
| "find_index P (x # xs) = (if P x then Some 0 else map_option Suc (find_index P xs))"

definition lease_cursor_start :: "lease list \<Rightarrow> string \<Rightarrow> nat" where
  "lease_cursor_start ls raw =
     (let cursor = trim raw in
      if cursor = [] then 0
      else (case parse_int cursor of
        Some off \<Rightarrow> if off < 0 then 0 else if int (length ls) < off then length ls else nat off
      | None \<Rightarrow>
         (case cut_at (CHR ''|'') cursor of
            None \<Rightarrow> 0
          | Some (raw_time, i) \<Rightarrow>
              if i = [] then 0
              else (case parse_int raw_time of
                  None \<Rightarrow> 0
                | Some nanos \<Rightarrow>
                    (case find_index (\<lambda>l. lease_id l = i \<and> unix_nano (granted_at l) = nanos) ls of
                       None \<Rightarrow> 0
                     | Some k \<Rightarrow> Suc k)))))"

definition selected_leases :: "time \<Rightarrow> lease list \<Rightarrow> lease_options \<Rightarrow> lease list" where
  "selected_leases wall input opts =
     (let now = (if lo_now opts = zero_time then wall else lo_now opts)
      in sort_by lease_less (filter (lease_kept now opts) input))"

definition list_leases :: "time \<Rightarrow> lease list \<Rightarrow> lease_options \<Rightarrow> lease_response" where
  "list_leases wall input opts =
     (let limit = lease_limit (lo_limit opts);
          filtered = selected_leases wall input opts;
          start = lease_cursor_start filtered (lo_cursor opts);
          total = length filtered;
          end0 = start + limit;
          has_more = end0 < total;
          stop = (if total < end0 then total else end0)
      in \<lparr>lr_leases = take (stop - start) (drop start filtered), lr_total = total,
          lr_has_more = has_more,
          lr_next_cursor = (if has_more then stable_cursor (filtered ! (stop - 1)) else [])\<rparr>)"

section \<open>Ordering\<close>

interpretation lease_order: comparison lease_less
  by unfold_locales (auto simp: lease_less_def split: if_splits)

lemma selected_sorted: "sorted_wrt (\<lambda>a b. \<not> lease_less b a) (selected_leases wall input opts)"
  by (simp add: selected_leases_def Let_def lease_order.sorted_sort_by)

lemma set_selected: "set (selected_leases wall input opts) \<subseteq> set input"
  by (auto simp: selected_leases_def Let_def)

section \<open>The cursor\<close>

lemma find_index_Some:
  "find_index P xs = Some k \<Longrightarrow> k < length xs \<and> P (xs ! k)"
  by (induction xs arbitrary: k) (auto split: if_splits)

lemma find_index_unique:
  assumes "k < length xs" and "P (xs ! k)" and "\<And>j. j < length xs \<Longrightarrow> P (xs ! j) \<Longrightarrow> j = k"
  shows "find_index P xs = Some k"
  using assms
proof (induction xs arbitrary: k)
  case (Cons x xs)
  show ?case
  proof (cases k)
    case 0
    with Cons.prems show ?thesis by simp
  next
    case (Suc k')
    have "\<not> P x" using Cons.prems(3) [of 0] Suc by auto
    moreover have "find_index P xs = Some k'"
    proof (rule Cons.IH)
      show "k' < length xs" "P (xs ! k')" using Cons.prems(1,2) Suc by auto
      show "\<And>j. j < length xs \<Longrightarrow> P (xs ! j) \<Longrightarrow> j = k'"
        using Cons.prems(3) Suc by fastforce
    qed
    ultimately show ?thesis using Suc by simp
  qed
qed simp

text \<open>The leases a cursor can name: ids as the session store mints them (visible, not empty),
  grant times that fit \<open>int64\<close> nanoseconds, no two leases with the same id.\<close>

definition cursor_ready :: "lease list \<Rightarrow> bool" where
  "cursor_ready ls \<longleftrightarrow>
     distinct (map lease_id ls) \<and>
     (\<forall>l\<in>set ls. lease_id l \<noteq> [] \<and> visible (lease_id l) \<and> int64_range (granted_at l))"

lemma cursor_ready_selected: "cursor_ready input \<Longrightarrow> cursor_ready (selected_leases wall input opts)"
proof -
  assume r: "cursor_ready input"
  have "mset (map lease_id (sort_by lease_less (filter P input))) = mset (map lease_id (filter P input))" for P
    by simp
  then have "distinct (map lease_id (sort_by lease_less (filter P input)))" for P
    using r by (metis cursor_ready_def distinct_map_filter mset_eq_imp_distinct_iff)
  then have "distinct (map lease_id (selected_leases wall input opts))"
    by (simp add: selected_leases_def Let_def)
  with r set_selected [of wall input opts] show ?thesis by (auto simp: cursor_ready_def)
qed

lemma not_digit_bar: "parse_int (a @ ''|'' @ b) = None"
proof -
  have bad: "digits_val n (c @ ''|'' @ d) = None" for n c d
    by (simp add: digits_val_append split: option.split)
  show ?thesis
  proof (cases a)
    case Nil
    then show ?thesis using bad [of 0 "[]" b] by (simp add: parse_int_def)
  next
    case (Cons x a')
    then show ?thesis using bad [of 0 a b] bad [of 0 a' b] by (simp add: parse_int_def Let_def)
  qed
qed

lemma bar_not_in_format_int: "CHR ''|'' \<notin> set (format_int i)"
  using format_int_chars [of "CHR ''|''" i] by auto

lemma cursor_start_stable:
  assumes r: "cursor_ready ls" and k: "k < length ls"
  shows "lease_cursor_start ls (stable_cursor (ls ! k)) = Suc k"
proof -
  let ?l = "ls ! k"
  from r k have l: "lease_id ?l \<noteq> []" "visible (lease_id ?l)" "int64_range (granted_at ?l)"
    by (auto simp: cursor_ready_def)
  have "trim (stable_cursor ?l) = stable_cursor ?l"
    using l by (simp add: stable_cursor_def)
  moreover have "parse_int (stable_cursor ?l) = None"
    unfolding stable_cursor_def by (rule not_digit_bar)
  moreover have "cut_at (CHR ''|'') (stable_cursor ?l)
      = Some (format_int (unix_nano (granted_at ?l)), lease_id ?l)"
    unfolding stable_cursor_def using cut_at_append [OF bar_not_in_format_int] by simp
  moreover have "find_index (\<lambda>l. lease_id l = lease_id ?l
      \<and> unix_nano (granted_at l) = unix_nano (granted_at ?l)) ls = Some k"
    using r k by (intro find_index_unique) (auto simp: cursor_ready_def distinct_conv_nth)
  moreover have "stable_cursor ?l \<noteq> []" by (simp add: stable_cursor_def)
  ultimately show ?thesis
    using l by (simp add: lease_cursor_start_def Let_def parse_format_int)
qed

section \<open>Pages\<close>

lemma lease_limit_bounds: "1 \<le> lease_limit n \<and> lease_limit n \<le> 100"
  by (auto simp: lease_limit_def default_limit_def)

lemma find_index_less: "find_index P xs = Some k \<Longrightarrow> k < length xs"
  by (simp add: find_index_Some)

lemma cursor_start_le: "lease_cursor_start ls c \<le> length ls"
  by (auto simp: lease_cursor_start_def Let_def Suc_le_eq find_index_less split: option.split)

text \<open>What one call returns, in terms of the selected list and the start index.\<close>

lemma list_leases_page:
  assumes "F = selected_leases wall input opts" and "n = lease_limit (lo_limit opts)"
    and "i = lease_cursor_start F (lo_cursor opts)"
  shows "lr_leases (list_leases wall input opts) = take n (drop i F)"
    and "lr_total (list_leases wall input opts) = length F"
    and "lr_has_more (list_leases wall input opts) \<longleftrightarrow> i + n < length F"
    and "i + n < length F \<Longrightarrow> lr_next_cursor (list_leases wall input opts) = stable_cursor (F ! (i + n - 1))"
  using assms cursor_start_le [of F "lo_cursor opts"]
  by (auto simp: list_leases_def Let_def)

text \<open>A client that asks for the first page and then follows \<open>next_cursor\<close>.\<close>

fun lease_walk :: "nat \<Rightarrow> time \<Rightarrow> lease list \<Rightarrow> lease_options \<Rightarrow> lease list" where
  "lease_walk 0 wall input opts = []"
| "lease_walk (Suc fuel) wall input opts =
     (let r = list_leases wall input opts in
      lr_leases r @
      (if lr_has_more r then lease_walk fuel wall input (opts\<lparr>lo_cursor := lr_next_cursor r\<rparr>)
       else []))"

lemma lease_kept_cursor [simp]: "lease_kept now (opts\<lparr>lo_cursor := c\<rparr>) = lease_kept now opts"
  by (simp add: lease_kept_def fun_eq_iff)

lemma selected_cursor [simp]:
  "selected_leases wall input (opts\<lparr>lo_cursor := c\<rparr>) = selected_leases wall input opts"
  by (simp add: selected_leases_def Let_def)

lemma lease_walk_from:
  assumes r: "cursor_ready input"
    and "F = selected_leases wall input opts"
    and "i = lease_cursor_start F (lo_cursor opts)"
    and "length F - i < fuel"
  shows "lease_walk fuel wall input opts = drop i F"
  using assms
proof (induction fuel arbitrary: opts i)
  case (Suc fuel)
  let ?n = "lease_limit (lo_limit opts)"
  note F = Suc.prems(2)
  have n: "0 < ?n" using lease_limit_bounds [of "lo_limit opts"] by simp
  note page = list_leases_page [OF F refl Suc.prems(3)]
  show ?case
  proof (cases "i + ?n < length F")
    case True
    let ?c = "stable_cursor (F ! (i + ?n - 1))"
    have "lease_cursor_start F ?c = Suc (i + ?n - 1)"
      using True cursor_ready_selected [OF r] F n by (intro cursor_start_stable) auto
    then have start: "i + ?n = lease_cursor_start F (lo_cursor (opts\<lparr>lo_cursor := ?c\<rparr>))"
      using n by simp
    have "lease_walk fuel wall input (opts\<lparr>lo_cursor := ?c\<rparr>) = drop (i + ?n) F"
      using Suc.prems(4) n True by (intro Suc.IH [OF r _ start]) (auto simp: F)
    moreover have "drop i F = take ?n (drop i F) @ drop (i + ?n) F"
      by (metis add.commute append_take_drop_id drop_drop)
    ultimately show ?thesis using True page by (simp add: Let_def)
  next
    case False
    then show ?thesis using page by (simp add: Let_def)
  qed
qed simp

section \<open>Properties\<close>

text \<open>Following the cursors of successive pages lists exactly the selected leases, each
  once and in order, whatever the page size.\<close>

theorem lease_pages_cover:
  assumes "cursor_ready input" and "trim (lo_cursor opts) = []" and "length input < fuel"
  shows "lease_walk fuel wall input opts = selected_leases wall input opts"
proof -
  let ?F = "selected_leases wall input opts"
  have "length ?F \<le> length input" by (simp add: selected_leases_def Let_def length_filter_le)
  then have "lease_walk fuel wall input opts = drop 0 ?F"
    using assms by (intro lease_walk_from) (auto simp: lease_cursor_start_def)
  then show ?thesis by simp
qed

definition sample_leases :: "lease list" where
  "sample_leases =
     [\<lparr>lease_id = ''a1'', secret_id = ''s'', consumer_id = ''cli'', granted_at = 5, expires_at = 50,
       last_used_at = 6, lease_scope = ''session'', lease_status = ''active''\<rparr>,
      \<lparr>lease_id = ''b2'', secret_id = ''s'', consumer_id = ''cli'', granted_at = 9, expires_at = 50,
       last_used_at = 9, lease_scope = ''session'', lease_status = ''active''\<rparr>]"

definition sample_options :: lease_options where
  "sample_options = \<lparr>lo_consumer = '''', lo_status = ''active'', lo_expiring_in = 0,
     lo_cursor = '''', lo_limit = 1, lo_now = 20\<rparr>"

theorem lease_pages_cover_witness:
  "lease_walk 3 0 sample_leases sample_options = selected_leases 0 sample_leases sample_options
   \<and> map lease_id (selected_leases 0 sample_leases sample_options) = [''b2'', ''a1'']"
proof -
  have "cursor_ready sample_leases"
    by (simp add: cursor_ready_def sample_leases_def int64_range_def)
  moreover have "trim (lo_cursor sample_options) = []" by (simp add: sample_options_def)
  moreover have "length sample_leases < 3" by (simp add: sample_leases_def)
  ultimately have "lease_walk 3 0 sample_leases sample_options = selected_leases 0 sample_leases sample_options"
    by (rule lease_pages_cover)
  moreover have "map lease_id (selected_leases 0 sample_leases sample_options) = [''b2'', ''a1'']"
    by (simp add: selected_leases_def sample_leases_def sample_options_def lease_kept_def sort_by_def
        lease_less_def zero_time_def Let_def)
  ultimately show ?thesis by simp
qed

text \<open>A page holds at most 100 leases, all of them input leases that pass the filter, most
  recent grant first; the total counts the whole selection.\<close>

theorem lease_page_contents:
  "length (lr_leases (list_leases wall input opts)) \<le> 100
   \<and> set (lr_leases (list_leases wall input opts))
       \<subseteq> {l \<in> set input. lease_kept (if lo_now opts = zero_time then wall else lo_now opts) opts l}
   \<and> sorted_wrt (\<lambda>a b. granted_at b \<le> granted_at a) (lr_leases (list_leases wall input opts))
   \<and> lr_total (list_leases wall input opts)
       = length (filter (lease_kept (if lo_now opts = zero_time then wall else lo_now opts) opts) input)"
proof -
  let ?F = "selected_leases wall input opts"
  let ?i = "lease_cursor_start ?F (lo_cursor opts)"
  note page = list_leases_page [OF refl refl refl, of wall input opts]
  have "sorted_wrt (\<lambda>a b. granted_at b \<le> granted_at a) ?F"
    by (rule sorted_wrt_mono_rel [OF _ selected_sorted])
      (auto simp: lease_less_def split: if_splits)
  then have "sorted_wrt (\<lambda>a b. granted_at b \<le> granted_at a) (take n (drop ?i ?F))" for n
    by (intro sorted_wrt_take sorted_wrt_drop)
  moreover have "set (take n (drop ?i ?F)) \<subseteq> set ?F" for n
    by (meson set_drop_subset set_take_subset subset_trans)
  moreover have "set ?F = {l \<in> set input. lease_kept (if lo_now opts = zero_time then wall else lo_now opts) opts l}"
    by (auto simp: selected_leases_def Let_def)
  ultimately show ?thesis
    using page lease_limit_bounds [of "lo_limit opts"]
    by (auto simp: selected_leases_def Let_def min_def)
qed

end
