(* ===== verification/Approvals.thy ===== *)
theory Approvals
  imports Prelude
begin

text \<open>
  \<^verbatim>\<open>internal/approvals/approvals.go\<close> (the listing) and
  \<^verbatim>\<open>internal/runtime/approvals.go\<close> (the store of approval requests). A request is
  pending until it is granted, denied or found expired; the theorems say that these three
  states are final and that at most one decision is ever recorded.
\<close>

record decision =
  d_granted_ttl_s :: int
  d_scope :: string
  d_reason :: string

record approval =
  ap_id :: string
  ap_secret_id :: string
  ap_consumer_id :: string
  ap_verifier :: string
  ap_scope :: string
  ap_ttl_s :: int
  ap_requested_at :: time
  ap_expires_at :: time
  ap_status :: string
  ap_decision :: "decision option"
  ap_actor :: string
  ap_decided_at :: time

record approval_list_options =
  alo_status :: string
  alo_consumer :: string
  alo_now :: time

record approval_response =
  ar_approvals :: "approval list"
  ar_pending_count :: nat
  ar_oldest_pending_age_s :: int

section \<open>The listing\<close>

definition normalize_expired :: "approval \<Rightarrow> time \<Rightarrow> approval" where
  "normalize_expired a now =
     (if ap_status a = ''pending'' \<and> ap_expires_at a \<noteq> zero_time \<and> ap_expires_at a < now
      then a\<lparr>ap_status := ''expired''\<rparr> else a)"

definition approval_less :: "approval \<Rightarrow> approval \<Rightarrow> bool" where
  "approval_less a b =
     (if ap_status a = ''pending'' \<and> ap_status b \<noteq> ''pending'' then True
      else if ap_status a \<noteq> ''pending'' \<and> ap_status b = ''pending'' then False
      else if ap_requested_at a = ap_requested_at b then ap_id a < ap_id b
      else ap_requested_at a < ap_requested_at b)"

fun scan_approvals :: "time \<Rightarrow> string \<Rightarrow> string \<Rightarrow> approval list \<Rightarrow> approval list \<times> nat \<times> int
    \<Rightarrow> approval list \<times> nat \<times> int" where
  "scan_approvals now status consumer [] acc = acc"
| "scan_approvals now status consumer (a0 # as) (out, pending, oldest) =
     (let a = normalize_expired a0 now;
          age = whole_seconds (time_sub now (ap_requested_at a));
          pending' = (if ap_status a = ''pending'' then Suc pending else pending);
          oldest' = (if ap_status a = ''pending'' \<and> oldest < age then age else oldest);
          skip = (status \<noteq> [] \<and> ap_status a \<noteq> status \<or> consumer \<noteq> [] \<and> ap_consumer_id a \<noteq> consumer)
      in scan_approvals now status consumer as
           (if skip then out else out @ [a], pending', oldest'))"

definition list_approvals :: "time \<Rightarrow> approval list \<Rightarrow> approval_list_options \<Rightarrow> approval_response" where
  "list_approvals wall input opts =
     (let now = (if alo_now opts = zero_time then wall else alo_now opts);
          r = scan_approvals now (trim (alo_status opts)) (trim (alo_consumer opts)) input ([], 0, 0)
      in \<lparr>ar_approvals = sort_by approval_less (fst r), ar_pending_count = fst (snd r),
          ar_oldest_pending_age_s = snd (snd r)\<rparr>)"

interpretation approval_order: comparison approval_less
  by unfold_locales (auto simp: approval_less_def split: if_splits)

section \<open>The store of requests\<close>

datatype approval_error =
    SecretIdRequired | ConsumerIdRequired | MintApprovalId
  | ApprovalIdRequired | ApprovalNotFound | ApprovalExpired

record queue_input =
  qi_secret_id :: string
  qi_consumer_id :: string
  qi_verifier :: string
  qi_scope :: string
  qi_ttl_s :: int
  qi_ttl :: duration

text \<open>\<open>as_hook\<close> says whether a callback is installed, \<open>as_notified\<close> lists the requests it
  was called with.\<close>

record approval_store =
  as_approvals :: "approval gomap"
  as_hook :: bool
  as_notified :: "approval list"

definition new_approval_store :: approval_store where
  "new_approval_store = \<lparr>as_approvals = [], as_hook = False, as_notified = []\<rparr>"

definition set_on_queue :: "bool \<Rightarrow> approval_store \<Rightarrow> approval_store" where
  "set_on_queue h s = s\<lparr>as_hook := h\<rparr>"

definition default_session_ttl_s :: int where
  "default_session_ttl_s = 1800"

definition queue_approval :: "time \<Rightarrow> string option \<Rightarrow> queue_input \<Rightarrow> approval_store
    \<Rightarrow> (approval_error + approval) \<times> approval_store" where
  "queue_approval now rnd qi s =
     (let secret = trim (qi_secret_id qi); consumer = trim (qi_consumer_id qi) in
      if secret = [] then (Inl SecretIdRequired, s)
      else if consumer = [] then (Inl ConsumerIdRequired, s)
      else
        (let scope = (if trim (qi_scope qi) = [] then ''session'' else trim (qi_scope qi));
             ttl_s = (if qi_ttl_s qi \<le> 0 then default_session_ttl_s else qi_ttl_s qi);
             ttl = (if qi_ttl qi \<le> 0 then 5 * minute else qi_ttl qi) in
         case rnd of None \<Rightarrow> (Inl MintApprovalId, s)
         | Some i \<Rightarrow>
             (let a = \<lparr>ap_id = i, ap_secret_id = secret, ap_consumer_id = consumer,
                   ap_verifier = (if trim (qi_verifier qi) = [] then ''local-daemon-peer''
                                  else trim (qi_verifier qi)),
                   ap_scope = scope, ap_ttl_s = ttl_s, ap_requested_at = now,
                   ap_expires_at = now + ttl, ap_status = ''pending'', ap_decision = None,
                   ap_actor = [], ap_decided_at = zero_time\<rparr>
              in (Inr a, s\<lparr>as_approvals := put i a (as_approvals s),
                          as_notified := (if as_hook s then as_notified s @ [a] else as_notified s)\<rparr>))))"

definition expire_if_due :: "time \<Rightarrow> approval \<Rightarrow> approval" where
  "expire_if_due now a =
     (if ap_status a = ''pending'' \<and> ap_expires_at a < now then a\<lparr>ap_status := ''expired''\<rparr> else a)"

definition approval_snapshot :: "time \<Rightarrow> approval_store \<Rightarrow> approval list \<times> approval_store" where
  "approval_snapshot now s =
     (let m = map_vals (\<lambda>_. expire_if_due now) (as_approvals s)
      in (vals m, s\<lparr>as_approvals := m\<rparr>))"

text \<open>Results carry the approval (\<open>None\<close> for the zero value), whether this call decided it,
  and the error.\<close>

definition prepare_decision :: "time \<Rightarrow> string \<Rightarrow> approval_store
    \<Rightarrow> (approval option \<times> approval_error option) \<times> approval_store" where
  "prepare_decision now raw s =
     (let i = trim raw in
      if i = [] then ((None, Some ApprovalIdRequired), s)
      else (case map_of (as_approvals s) i of
          None \<Rightarrow> ((None, Some ApprovalNotFound), s)
        | Some a \<Rightarrow>
            if ap_status a = ''pending'' \<and> ap_expires_at a < now
            then (let a' = a\<lparr>ap_status := ''expired''\<rparr>
                  in ((Some a', Some ApprovalExpired), s\<lparr>as_approvals := put i a' (as_approvals s)\<rparr>))
            else ((Some a, None), s)))"

definition decide_prepared :: "time \<Rightarrow> string \<Rightarrow> decision option \<Rightarrow> string \<Rightarrow> bool \<Rightarrow> approval_store
    \<Rightarrow> (approval option \<times> bool \<times> approval_error option) \<times> approval_store" where
  "decide_prepared now raw dec actor grant s =
     (let i = trim raw in
      if i = [] then ((None, False, Some ApprovalIdRequired), s)
      else (case map_of (as_approvals s) i of
          None \<Rightarrow> ((None, False, Some ApprovalNotFound), s)
        | Some a \<Rightarrow>
            if ap_status a = ''pending'' \<and> ap_expires_at a < now
            then (let a' = a\<lparr>ap_status := ''expired''\<rparr>
                  in ((Some a', False, Some ApprovalExpired), s\<lparr>as_approvals := put i a' (as_approvals s)\<rparr>))
            else if ap_status a \<noteq> ''pending'' then ((Some a, False, None), s)
            else (let a' = a\<lparr>ap_decision := dec,
                       ap_actor := (if trim actor = [] then ''cli'' else actor),
                       ap_decided_at := now,
                       ap_status := (if grant then ''granted'' else ''denied'')\<rparr>
                  in ((Some a', True, None), s\<lparr>as_approvals := put i a' (as_approvals s)\<rparr>))))"

definition decide :: "time \<Rightarrow> string \<Rightarrow> decision \<Rightarrow> string \<Rightarrow> bool \<Rightarrow> approval_store
    \<Rightarrow> (approval option \<times> bool \<times> approval_error option) \<times> approval_store" where
  "decide now i dec actor grant s = decide_prepared now i (Some dec) actor grant s"

section \<open>Runs of the store\<close>

datatype approval_op =
    OpQueue time "string option" queue_input
  | OpHook bool
  | OpSnapshot time
  | OpPrepare time string
  | OpDecide time string "decision option" string bool

fun approval_step :: "approval_op \<Rightarrow> approval_store \<Rightarrow> approval_store" where
  "approval_step (OpQueue now rnd qi) s = snd (queue_approval now rnd qi s)"
| "approval_step (OpHook h) s = set_on_queue h s"
| "approval_step (OpSnapshot now) s = snd (approval_snapshot now s)"
| "approval_step (OpPrepare now i) s = snd (prepare_decision now i s)"
| "approval_step (OpDecide now i dec actor grant) s = snd (decide_prepared now i dec actor grant s)"

text \<open>Whether an operation decides the request \<open>i\<close>: the flag the call returns.\<close>

fun decides :: "string \<Rightarrow> approval_op \<Rightarrow> approval_store \<Rightarrow> bool" where
  "decides i (OpDecide now raw dec actor grant) s \<longleftrightarrow>
     trim raw = i \<and> fst (snd (fst (decide_prepared now raw dec actor grant s)))"
| "decides i _ s \<longleftrightarrow> False"

fun mints :: "string \<Rightarrow> approval_op \<Rightarrow> bool" where
  "mints i (OpQueue now rnd qi) \<longleftrightarrow> rnd = Some i"
| "mints i _ \<longleftrightarrow> False"

fun approval_run :: "approval_op list \<Rightarrow> approval_store \<Rightarrow> approval_store" where
  "approval_run [] s = s"
| "approval_run (x # xs) s = approval_run xs (approval_step x s)"

fun decision_count :: "string \<Rightarrow> approval_op list \<Rightarrow> approval_store \<Rightarrow> nat" where
  "decision_count i [] s = 0"
| "decision_count i (x # xs) s =
     (if decides i x s then 1 else 0) + decision_count i xs (approval_step x s)"

definition settled :: "approval \<Rightarrow> bool" where
  "settled a \<longleftrightarrow> ap_status a \<noteq> ''pending''"

lemmas approval_op_defs = queue_approval_def set_on_queue_def approval_snapshot_def
  prepare_decision_def decide_prepared_def expire_if_due_def Let_def

lemma settled_step:
  assumes "map_of (as_approvals s) i = Some a" and "settled a" and "\<not> mints i x"
  shows "map_of (as_approvals (approval_step x s)) i = Some a"
  using assms
  by (cases x) (auto simp: approval_op_defs settled_def split: option.splits)

lemma settled_run:
  assumes "map_of (as_approvals s) i = Some a" and "settled a" and "\<forall>x\<in>set xs. \<not> mints i x"
  shows "map_of (as_approvals (approval_run xs s)) i = Some a"
  using assms by (induction xs arbitrary: s) (simp_all add: settled_step)

lemma decides_pending:
  "decides i x s \<Longrightarrow> \<exists>a. map_of (as_approvals s) i = Some a \<and> ap_status a = ''pending''"
  by (cases x) (auto simp: approval_op_defs split: option.splits if_splits)

lemma decides_settles:
  "decides i x s \<Longrightarrow> \<exists>a. map_of (as_approvals (approval_step x s)) i = Some a \<and> settled a"
  by (cases x) (auto simp: approval_op_defs settled_def split: option.splits if_splits)

lemma settled_no_decision:
  assumes "map_of (as_approvals s) i = Some a" and "settled a" and "\<forall>x\<in>set xs. \<not> mints i x"
  shows "decision_count i xs s = 0"
  using assms
proof (induction xs arbitrary: s)
  case (Cons x xs)
  have "\<not> decides i x s" using Cons.prems(1,2) decides_pending by (force simp: settled_def)
  moreover have "map_of (as_approvals (approval_step x s)) i = Some a"
    using Cons.prems by (simp add: settled_step)
  ultimately show ?case using Cons by simp
qed simp

text \<open>What every request in the store satisfies.\<close>

definition approval_ok :: "approval \<Rightarrow> bool" where
  "approval_ok a \<longleftrightarrow>
     ap_requested_at a < ap_expires_at a \<and> ap_secret_id a \<noteq> [] \<and> ap_consumer_id a \<noteq> [] \<and>
     (ap_status a \<in> {''pending'', ''expired''} \<and> ap_decision a = None \<and> ap_actor a = []
        \<and> ap_decided_at a = zero_time
      \<or> ap_status a \<in> {''granted'', ''denied''} \<and> ap_actor a \<noteq> [] \<and> ap_decided_at a \<le> ap_expires_at a)"

definition store_ok :: "approval_store \<Rightarrow> bool" where
  "store_ok s \<longleftrightarrow> (\<forall>i a. map_of (as_approvals s) i = Some a \<longrightarrow> ap_id a = i \<and> approval_ok a)"


lemma approval_ok_expire: "approval_ok a \<Longrightarrow> ap_status a = ''pending'' \<Longrightarrow> approval_ok (a\<lparr>ap_status := ''expired''\<rparr>)"
  by (auto simp: approval_ok_def)

lemma approval_ok_decide:
  "approval_ok a \<Longrightarrow> ap_status a = ''pending'' \<Longrightarrow> now \<le> ap_expires_at a \<Longrightarrow> actor \<noteq> []
   \<Longrightarrow> approval_ok (a\<lparr>ap_decision := dec, ap_actor := actor, ap_decided_at := now,
        ap_status := (if grant then ''granted'' else ''denied'')\<rparr>)"
  by (auto simp: approval_ok_def)

lemma store_ok_queue: "store_ok s \<Longrightarrow> store_ok (snd (queue_approval now rnd qi s))"
proof (cases rnd)
  case (Some i)
  assume ok: "store_ok s"
  show ?thesis
  proof (cases "trim (qi_secret_id qi) = [] \<or> trim (qi_consumer_id qi) = []")
    case True
    then show ?thesis using ok by (auto simp: queue_approval_def Let_def)
  next
    case False
    then show ?thesis using ok Some
      by (auto simp: queue_approval_def Let_def minute_def second_def store_ok_def approval_ok_def)
  qed
qed (auto simp: queue_approval_def Let_def)

lemma store_ok_prepare: "store_ok s \<Longrightarrow> store_ok (snd (prepare_decision now raw s))"
  by (auto simp: prepare_decision_def Let_def store_ok_def approval_ok_expire split: option.split)

lemma store_ok_decide: "store_ok s \<Longrightarrow> store_ok (snd (decide_prepared now raw dec actor grant s))"
proof (cases "map_of (as_approvals s) (trim raw)")
  case (Some a)
  assume ok: "store_ok s"
  with Some have a: "approval_ok a" "ap_id a = trim raw" by (auto simp: store_ok_def)
  have actor: "(if trim actor = [] then ''cli'' else actor) \<noteq> []" by auto
  show ?thesis
    using a ok Some approval_ok_decide [OF a(1) _ _ actor, where now = now and dec = dec and grant = grant]
    by (auto simp: decide_prepared_def Let_def approval_ok_expire not_less store_ok_def)
qed (auto simp: decide_prepared_def Let_def)

lemma store_ok_step: "store_ok s \<Longrightarrow> store_ok (approval_step x s)"
proof (cases x)
  case (OpSnapshot now)
  assume "store_ok s"
  then show ?thesis
    by (auto simp: OpSnapshot approval_snapshot_def Let_def store_ok_def expire_if_due_def
        approval_ok_expire)
next
  case (OpHook h)
  then show "store_ok s \<Longrightarrow> ?thesis" by (simp add: set_on_queue_def store_ok_def)
qed (simp_all add: store_ok_queue store_ok_prepare store_ok_decide)

lemma store_ok_run: "store_ok s \<Longrightarrow> store_ok (approval_run xs s)"
  by (induction xs arbitrary: s) (simp_all add: store_ok_step)

section \<open>Properties\<close>

text \<open>C9: Whatever operations follow, at most one call decides a given request, and once it is
  settled (granted, denied or expired) its record never changes again.\<close>

theorem approval_decided_once:
  assumes "\<forall>x\<in>set xs. \<not> mints i x"
  shows "decision_count i xs s \<le> 1
    \<and> (\<forall>a. map_of (as_approvals s) i = Some a \<and> settled a
           \<longrightarrow> map_of (as_approvals (approval_run xs s)) i = Some a)"
proof -
  have "decision_count i xs s \<le> 1"
    using assms
  proof (induction xs arbitrary: s)
    case (Cons x xs)
    show ?case
    proof (cases "decides i x s")
      case True
      then obtain a where "map_of (as_approvals (approval_step x s)) i = Some a" "settled a"
        using decides_settles by blast
      then have "decision_count i xs (approval_step x s) = 0"
        using Cons.prems by (auto intro: settled_no_decision)
      with True show ?thesis by simp
    next
      case False
      with Cons show ?thesis by simp
    qed
  qed simp
  with assms settled_run show ?thesis by blast
qed

definition sample_queue :: queue_input where
  "sample_queue = \<lparr>qi_secret_id = ''s'', qi_consumer_id = ''c'', qi_verifier = '''',
     qi_scope = '''', qi_ttl_s = 0, qi_ttl = 0\<rparr>"

definition sample_store :: approval_store where
  "sample_store = snd (queue_approval 0 (Some ''a'') sample_queue new_approval_store)"

theorem approval_decided_once_witness:
  "decision_count ''a'' [OpDecide 1 ''a'' None ''u'' True, OpDecide 2 ''a'' None ''v'' False] sample_store = 1"
proof -
  let ?xs = "[OpDecide 1 ''a'' None ''u'' True, OpDecide 2 ''a'' None ''v'' False]"
  have "decision_count ''a'' ?xs sample_store \<le> 1"
    using approval_decided_once [of ?xs "''a''" sample_store] by simp
  moreover have "decision_count ''a'' ?xs sample_store \<ge> 1"
    by (simp add: sample_store_def sample_queue_def new_approval_store_def queue_approval_def
        decide_prepared_def Let_def minute_def second_def)
  ultimately show ?thesis by simp
qed

text \<open>C21: In every store reached from the empty one, a granted or denied request was decided no
  later than its expiry and names who decided it; a pending or expired one carries no decision.\<close>

theorem approval_store_invariant:
  assumes "map_of (as_approvals (approval_run xs new_approval_store)) i = Some a"
  shows "ap_id a = i \<and> ap_requested_at a < ap_expires_at a
    \<and> (if ap_status a \<in> {''granted'', ''denied''} then ap_decided_at a \<le> ap_expires_at a \<and> ap_actor a \<noteq> []
       else ap_status a \<in> {''pending'', ''expired''} \<and> ap_decision a = None \<and> ap_actor a = [])"
proof -
  have "store_ok (approval_run xs new_approval_store)"
    by (rule store_ok_run) (simp add: store_ok_def new_approval_store_def)
  with assms have "ap_id a = i" "approval_ok a" by (auto simp: store_ok_def)
  then show ?thesis by (auto simp: approval_ok_def)
qed

theorem approval_store_invariant_witness:
  "\<exists>a. map_of (as_approvals (approval_run [OpQueue 0 (Some ''a'') sample_queue,
        OpDecide 1 ''a'' None '''' True] new_approval_store)) ''a'' = Some a
     \<and> ap_status a = ''granted'' \<and> ap_decided_at a \<le> ap_expires_at a"
proof -
  let ?s = "approval_run [OpQueue 0 (Some ''a'') sample_queue, OpDecide 1 ''a'' None '''' True] new_approval_store"
  obtain a where a: "map_of (as_approvals ?s) ''a'' = Some a" "ap_status a = ''granted''"
    by (simp add: sample_queue_def new_approval_store_def queue_approval_def
        decide_prepared_def Let_def minute_def second_def put_def)
  with approval_store_invariant [OF a(1)] show ?thesis by auto
qed

end
