(* ===== verification/Sessions.thy ===== *)
theory Sessions
  imports Leases
begin

text \<open>
  \<^verbatim>\<open>internal/runtime/sessions.go\<close> and the process ancestry walk of
  \<^verbatim>\<open>internal/runtime/ancestry_unix.go\<close>: the daemon's session store. Every operation
  takes the clock reading it makes; the OS user, the canonicalisation of project roots, the
  random tokens and the process identity probe are arguments. The theorems: a session resolves
  only while it is live, revocation is final, a process inherits a session only under the
  identity recorded for it.
\<close>

record session =
  se_id :: string
  se_token :: string
  se_local_user :: string
  se_host_label :: string
  se_project_root :: string
  se_agent_safe :: bool
  se_consumer_name :: string
  se_internal :: bool
  se_opened_at :: time
  se_expires_at :: time
  se_last_seen_at :: time
  se_revoked_at :: "time option"
  se_lease_status :: string
  se_lease_secret_id :: string
  se_lease_scope :: string

record session_view =
  sv_id :: string
  sv_local_user :: string
  sv_host_label :: string
  sv_project_root :: string
  sv_agent_safe :: bool
  sv_consumer_name :: string
  sv_internal :: bool
  sv_opened_at :: time
  sv_expires_at :: time
  sv_last_seen_at :: time

record process_binding =
  pb_token :: string
  pb_identity :: string

record session_store =
  ss_sessions :: "session gomap"
  ss_processes :: "(int \<times> process_binding) list"
  ss_locked :: bool
  ss_idle_ttl :: duration
  ss_degraded :: bool
  ss_degraded_reason :: string

datatype session_error = TtlNotPositive | CurrentUserFailed | MintSessionId | MintSessionToken

definition default_vault_idle_timeout :: duration where
  "default_vault_idle_timeout = 10 * minute"

definition new_session_store :: session_store where
  "new_session_store = \<lparr>ss_sessions = [], ss_processes = [], ss_locked = True,
     ss_idle_ttl = default_vault_idle_timeout, ss_degraded = False, ss_degraded_reason = []\<rparr>"

section \<open>Opening\<close>

text \<open>What opening a session reads from outside: the clock, the OS user, two random strings and
  the canonical form of the project path.\<close>

record open_env =
  oe_now :: time
  oe_user :: "string option"
  oe_id :: "string option"
  oe_token :: "string option"
  oe_canon :: "string \<Rightarrow> string"

definition new_session :: "open_env \<Rightarrow> string \<Rightarrow> string \<Rightarrow> duration \<Rightarrow> bool \<Rightarrow> string
    \<Rightarrow> session_error + session" where
  "new_session e host root ttl agent_safe consumer =
     (if ttl \<le> 0 then Inl TtlNotPositive
      else case oe_user e of None \<Rightarrow> Inl CurrentUserFailed
      | Some user \<Rightarrow>
        (case oe_id e of None \<Rightarrow> Inl MintSessionId
         | Some i \<Rightarrow>
           (case oe_token e of None \<Rightarrow> Inl MintSessionToken
            | Some tok \<Rightarrow>
              Inr \<lparr>se_id = i, se_token = tok, se_local_user = user, se_host_label = host,
                   se_project_root = oe_canon e root, se_agent_safe = agent_safe,
                   se_consumer_name = trim consumer, se_internal = False,
                   se_opened_at = oe_now e, se_expires_at = oe_now e + ttl,
                   se_last_seen_at = oe_now e, se_revoked_at = None, se_lease_status = [],
                   se_lease_secret_id = [], se_lease_scope = []\<rparr>)))"

definition add_session :: "session \<Rightarrow> session_store \<Rightarrow> session_store" where
  "add_session se s = s\<lparr>ss_sessions := put (se_token se) se (ss_sessions s), ss_locked := False\<rparr>"

definition open_session :: "open_env \<Rightarrow> string \<Rightarrow> string \<Rightarrow> duration \<Rightarrow> bool \<Rightarrow> string \<Rightarrow> bool
    \<Rightarrow> session_store \<Rightarrow> (session_error + session) \<times> session_store" where
  "open_session e host root ttl agent_safe consumer internal s =
     (case new_session e host root ttl agent_safe consumer of
        Inl err \<Rightarrow> (Inl err, s)
      | Inr se0 \<Rightarrow> (let se = se0\<lparr>se_internal := internal\<rparr> in (Inr se, add_session se s)))"

definition open_lease :: "open_env \<Rightarrow> string \<Rightarrow> string \<Rightarrow> string \<Rightarrow> duration \<Rightarrow> string
    \<Rightarrow> session_store \<Rightarrow> (session_error + session) \<times> session_store" where
  "open_lease e host secret scope ttl consumer s =
     (case new_session e host [] ttl False consumer of
        Inl err \<Rightarrow> (Inl err, s)
      | Inr se0 \<Rightarrow>
          (let se = se0\<lparr>se_lease_secret_id := trim secret,
                        se_lease_scope := (if trim scope = [] then ''session'' else trim scope)\<rparr>
           in (Inr se, add_session se s)))"

section \<open>Expiry\<close>

definition session_expired :: "duration \<Rightarrow> session \<Rightarrow> time \<Rightarrow> bool" where
  "session_expired idle se now =
     (if se_expires_at se < now then True
      else if idle \<le> 0 then False
      else idle < time_sub now (se_last_seen_at se))"

definition mark_expired :: "time \<Rightarrow> session \<Rightarrow> session" where
  "mark_expired now se =
     (if se_revoked_at se = None
      then se\<lparr>se_revoked_at := Some now, se_lease_status := ''expired''\<rparr> else se)"

definition mark_revoked :: "time \<Rightarrow> session \<Rightarrow> session" where
  "mark_revoked now se = se\<lparr>se_revoked_at := Some now, se_lease_status := ''revoked''\<rparr>"

definition live :: "duration \<Rightarrow> time \<Rightarrow> session \<Rightarrow> bool" where
  "live idle now se \<longleftrightarrow> se_revoked_at se = None \<and> \<not> session_expired idle se now"

definition drop_token :: "string \<Rightarrow> (int \<times> process_binding) list \<Rightarrow> (int \<times> process_binding) list" where
  "drop_token tok = keep (\<lambda>_ b. pb_token b \<noteq> tok)"

definition active_count_locked :: "time \<Rightarrow> session_store \<Rightarrow> nat" where
  "active_count_locked now s = length (filter (live (ss_idle_ttl s) now) (vals (ss_sessions s)))"

definition prune_expired :: "time \<Rightarrow> session_store \<Rightarrow> session_store" where
  "prune_expired now s =
     (let stale = (\<lambda>se. session_expired (ss_idle_ttl s) se now);
          gone = map fst (filter (\<lambda>(_, se). stale se) (ss_sessions s));
          s' = s\<lparr>ss_sessions := map_vals (\<lambda>_ se. if stale se then mark_expired now se else se) (ss_sessions s),
                 ss_processes := keep (\<lambda>_ b. pb_token b \<notin> set gone) (ss_processes s)\<rparr>
      in if active_count_locked now s' = 0 then s'\<lparr>ss_locked := True\<rparr> else s')"

section \<open>Resolution and revocation\<close>

definition resolve :: "time \<Rightarrow> string \<Rightarrow> session_store \<Rightarrow> session option \<times> session_store" where
  "resolve now tok s =
     (case map_of (ss_sessions s) tok of
        None \<Rightarrow> (None, s)
      | Some se \<Rightarrow>
          if se_revoked_at se \<noteq> None then (None, s)
          else if session_expired (ss_idle_ttl s) se now
          then (None, s\<lparr>ss_sessions := put tok (mark_expired now se) (ss_sessions s)\<rparr>)
          else (let se' = se\<lparr>se_last_seen_at := now\<rparr>
                in (Some se', s\<lparr>ss_sessions := put tok se' (ss_sessions s)\<rparr>)))"

definition revoke :: "time \<Rightarrow> string \<Rightarrow> session_store \<Rightarrow> bool \<times> session_store" where
  "revoke now tok s =
     (case map_of (ss_sessions s) tok of
        None \<Rightarrow> (False, s)
      | Some se \<Rightarrow>
          if se_revoked_at se \<noteq> None then (False, s)
          else (True, s\<lparr>ss_sessions := put tok (mark_revoked now se) (ss_sessions s),
                        ss_processes := drop_token tok (ss_processes s)\<rparr>))"

definition revoke_entry :: "duration \<Rightarrow> time \<Rightarrow> session \<Rightarrow> session" where
  "revoke_entry idle now se =
     (if se_revoked_at se \<noteq> None \<or> session_expired idle se now
      then (if se_revoked_at se = None \<and> session_expired idle se now then mark_expired now se else se)
      else mark_revoked now se)"

definition revoke_all :: "time \<Rightarrow> session_store \<Rightarrow> session list \<times> session_store" where
  "revoke_all now s =
     (map (mark_revoked now) (filter (live (ss_idle_ttl s) now) (vals (ss_sessions s))),
      s\<lparr>ss_sessions := map_vals (\<lambda>_. revoke_entry (ss_idle_ttl s) now) (ss_sessions s),
        ss_processes := [], ss_locked := True\<rparr>)"

definition revoke_lease_id :: "time \<Rightarrow> string \<Rightarrow> session_store
    \<Rightarrow> (session option \<times> bool \<times> bool) \<times> session_store" where
  "revoke_lease_id now raw s =
     (let i = trim raw in
      if i = [] then ((None, False, False), s)
      else (case find (\<lambda>(_, se). se_id se = i) (ss_sessions s) of
          None \<Rightarrow> ((None, False, False), s)
        | Some (tok, se) \<Rightarrow>
            if se_revoked_at se \<noteq> None then ((Some se, True, False), s)
            else if session_expired (ss_idle_ttl s) se now
            then ((Some se, True, False), s\<lparr>ss_sessions := put tok (mark_expired now se) (ss_sessions s)\<rparr>)
            else ((Some (mark_revoked now se), True, True),
                  s\<lparr>ss_sessions := put tok (mark_revoked now se) (ss_sessions s),
                    ss_processes := drop_token tok (ss_processes s)\<rparr>)))"

definition session_consumer_id :: "session \<Rightarrow> string" where
  "session_consumer_id se =
     (if trim (se_consumer_name se) \<noteq> [] then trim (se_consumer_name se)
      else if trim (se_host_label se) \<noteq> [] then trim (se_host_label se)
      else trim (se_local_user se))"

definition session_secret_id :: "session \<Rightarrow> string" where
  "session_secret_id se =
     (if trim (se_lease_secret_id se) \<noteq> [] then trim (se_lease_secret_id se)
      else if trim (se_project_root se) \<noteq> [] then trim (se_project_root se)
      else ''session:'' @ se_id se)"

definition session_scope :: "session \<Rightarrow> string" where
  "session_scope se =
     (if trim (se_lease_scope se) \<noteq> [] then trim (se_lease_scope se)
      else if trim (se_project_root se) \<noteq> [] then ''project''
      else ''session'')"

definition revoke_all_for_consumer :: "time \<Rightarrow> string \<Rightarrow> session_store \<Rightarrow> session list \<times> session_store" where
  "revoke_all_for_consumer now raw s =
     (let c = trim raw in
      if c = [] then ([], s)
      else
        (let idle = ss_idle_ttl s;
             hit = (\<lambda>se. live idle now se \<and> session_consumer_id se = c);
             gone = map fst (filter (\<lambda>(_, se). hit se) (ss_sessions s))
         in (map (mark_revoked now) (filter hit (vals (ss_sessions s))),
             s\<lparr>ss_sessions := map_vals (\<lambda>_ se.
                   if se_revoked_at se \<noteq> None \<or> session_expired idle se now
                   then (if se_revoked_at se = None \<and> session_expired idle se now
                         then mark_expired now se else se)
                   else if session_consumer_id se \<noteq> c then se
                   else mark_revoked now se) (ss_sessions s),
               ss_processes := keep (\<lambda>_ b. pb_token b \<notin> set gone) (ss_processes s)\<rparr>)))"

section \<open>Snapshots\<close>

text \<open>These operations prune first and read the clock again afterwards (\<open>later\<close>).\<close>

definition is_locked :: "time \<Rightarrow> time \<Rightarrow> session_store \<Rightarrow> bool \<times> session_store" where
  "is_locked now later s =
     (let s' = prune_expired now s in (ss_locked s' \<or> active_count_locked later s' = 0, s'))"

definition active_count :: "time \<Rightarrow> time \<Rightarrow> session_store \<Rightarrow> nat \<times> session_store" where
  "active_count now later s =
     (let s' = prune_expired now s
      in (length (filter (live (ss_idle_ttl s') later) (vals (ss_sessions s'))), s'))"

definition snapshot :: "time \<Rightarrow> time \<Rightarrow> session_store \<Rightarrow> session list \<times> session_store" where
  "snapshot now later s =
     (let s' = prune_expired now s in (filter (live (ss_idle_ttl s') later) (vals (ss_sessions s')), s'))"

definition session_view_of :: "session \<Rightarrow> session_view" where
  "session_view_of se =
     \<lparr>sv_id = se_id se, sv_local_user = se_local_user se, sv_host_label = se_host_label se,
      sv_project_root = se_project_root se, sv_agent_safe = se_agent_safe se,
      sv_consumer_name = se_consumer_name se, sv_internal = se_internal se,
      sv_opened_at = se_opened_at se, sv_expires_at = se_expires_at se,
      sv_last_seen_at = se_last_seen_at se\<rparr>"

definition view_snapshot :: "time \<Rightarrow> time \<Rightarrow> session_store \<Rightarrow> session_view list \<times> session_store" where
  "view_snapshot now later s =
     (let (ses, s') = snapshot now later s in (map session_view_of ses, s'))"

definition visible_snapshot :: "time \<Rightarrow> time \<Rightarrow> session_store \<Rightarrow> session list \<times> session_store" where
  "visible_snapshot now later s =
     (let (ses, s') = snapshot now later s in (filter (\<lambda>se. \<not> se_internal se) ses, s'))"

definition lease_of_session :: "session \<Rightarrow> lease" where
  "lease_of_session se =
     \<lparr>lease_id = se_id se, secret_id = session_secret_id se, consumer_id = session_consumer_id se,
      granted_at = se_opened_at se, expires_at = se_expires_at se, last_used_at = se_last_seen_at se,
      lease_scope = session_scope se,
      lease_status = (if se_revoked_at se \<noteq> None
                      then (if se_lease_status se = [] then ''revoked'' else se_lease_status se)
                      else ''active'')\<rparr>"

definition lease_snapshot :: "time \<Rightarrow> session_store \<Rightarrow> lease list \<times> session_store" where
  "lease_snapshot now s =
     (let s' = prune_expired now s
      in (map lease_of_session (filter (\<lambda>se. \<not> se_internal se) (vals (ss_sessions s'))), s'))"

section \<open>Process bindings\<close>

definition mark_process_identity_degraded :: "string \<Rightarrow> session_store \<Rightarrow> session_store" where
  "mark_process_identity_degraded reason s =
     s\<lparr>ss_degraded := True,
       ss_degraded_reason := (if ss_degraded_reason s = [] then reason else ss_degraded_reason s)\<rparr>"

definition process_identity_degraded :: "session_store \<Rightarrow> bool \<times> string" where
  "process_identity_degraded s = (ss_degraded s, ss_degraded_reason s)"

text \<open>\<open>probe pid\<close> is the identity the operating system reports, or the error text.\<close>

definition register_process :: "time \<Rightarrow> (int \<Rightarrow> string + string) \<Rightarrow> string \<Rightarrow> int \<Rightarrow> session_store
    \<Rightarrow> bool \<times> session_store" where
  "register_process now probe tok pid s =
     (if pid \<le> 0 then (False, s)
      else (case map_of (ss_sessions s) tok of
          None \<Rightarrow> (False, s)
        | Some se \<Rightarrow>
            if se_revoked_at se \<noteq> None \<or> session_expired (ss_idle_ttl s) se now
            then (False, if se_revoked_at se = None \<and> session_expired (ss_idle_ttl s) se now
                         then s\<lparr>ss_sessions := put tok (mark_expired now se) (ss_sessions s)\<rparr> else s)
            else (case probe pid of
                Inl err \<Rightarrow> (False, mark_process_identity_degraded (''identity probe failed: '' @ err) s)
              | Inr ident \<Rightarrow>
                  if ident = []
                  then (False, mark_process_identity_degraded ''identity probe unavailable'' s)
                  else (True, s\<lparr>ss_processes :=
                          put pid \<lparr>pb_token = tok, pb_identity = ident\<rparr> (ss_processes s)\<rparr>))))"

text \<open>The walk from a process to its ancestors. Process ids are positive \<open>int64\<close> values and no
  id is visited twice, so the walk ends.\<close>

definition max_pid :: int where
  "max_pid = 2 ^ 63 - 1"

lemma card_unseen:
  assumes "finite S" "x \<in> S" "x \<notin> seen"
  shows "card (S - insert x seen) < card (S - seen)"
  by (rule psubset_card_mono) (use assms in auto)

function lineage_from :: "(int \<Rightarrow> int option) \<Rightarrow> int set \<Rightarrow> int \<Rightarrow> int list" where
  "lineage_from parent seen current =
     (if \<not> (0 < current \<and> current \<le> max_pid) then []
      else if current \<in> seen then []
      else current #
        (case parent current of
           None \<Rightarrow> []
         | Some p \<Rightarrow> if p \<le> 1 \<or> p = current then []
                     else lineage_from parent (insert current seen) p))"
  by pat_completeness auto
termination
  by (relation "measure (\<lambda>(parent, seen, current). card ({1..max_pid} - seen))")
    (simp_all add: card_unseen del: card_Diff_insert)

declare lineage_from.simps [simp del]

definition process_lineage :: "(int \<Rightarrow> int option) \<Rightarrow> int \<Rightarrow> int list" where
  "process_lineage parent pid = (if pid \<le> 0 then [] else lineage_from parent {} pid)"

text \<open>One turn of the loop over the ancestors: the session found, if any, and the store.\<close>

definition forget_process :: "int \<Rightarrow> session_store \<Rightarrow> session_store" where
  "forget_process a s = s\<lparr>ss_processes := del a (ss_processes s)\<rparr>"

definition check_ancestor :: "time \<Rightarrow> (int \<Rightarrow> string + string) \<Rightarrow> int \<Rightarrow> session_store
    \<Rightarrow> (session \<times> string) option \<times> session_store" where
  "check_ancestor now probe a s =
     (case map_of (ss_processes s) a of
        None \<Rightarrow> (None, s)
      | Some b \<Rightarrow>
          if pb_identity b = []
          then (None, forget_process a (mark_process_identity_degraded ''identity binding unavailable'' s))
          else (case probe a of
              Inl err \<Rightarrow> (None, forget_process a
                 (mark_process_identity_degraded (''identity recheck failed: '' @ err) s))
            | Inr current \<Rightarrow>
                if current = []
                then (None, forget_process a
                       (mark_process_identity_degraded ''identity recheck unavailable'' s))
                else if current \<noteq> pb_identity b then (None, forget_process a s)
                else (case map_of (ss_sessions s) (pb_token b) of
                    None \<Rightarrow> (None, forget_process a s)
                  | Some se \<Rightarrow>
                      if se_revoked_at se \<noteq> None \<or> session_expired (ss_idle_ttl s) se now
                      then (None, forget_process a
                             (if se_revoked_at se = None \<and> session_expired (ss_idle_ttl s) se now
                              then s\<lparr>ss_sessions := put (pb_token b) (mark_expired now se) (ss_sessions s)\<rparr>
                              else s))
                      else (let se' = se\<lparr>se_last_seen_at := now\<rparr>
                            in (Some (se', pb_token b),
                                s\<lparr>ss_sessions := put (pb_token b) se' (ss_sessions s)\<rparr>)))))"

fun scan_lineage :: "time \<Rightarrow> (int \<Rightarrow> string + string) \<Rightarrow> int list \<Rightarrow> session_store
    \<Rightarrow> (session \<times> string) option \<times> session_store" where
  "scan_lineage now probe [] s = (None, s)"
| "scan_lineage now probe (a # as) s =
     (case check_ancestor now probe a s of
        (Some found, s') \<Rightarrow> (Some found, s')
      | (None, s') \<Rightarrow> scan_lineage now probe as s')"

definition resolve_process :: "time \<Rightarrow> (int \<Rightarrow> string + string) \<Rightarrow> (int \<Rightarrow> int option) \<Rightarrow> int
    \<Rightarrow> session_store \<Rightarrow> (session \<times> string) option \<times> session_store" where
  "resolve_process now probe parent pid s = scan_lineage now probe (process_lineage parent pid) s"

section \<open>Steps\<close>

datatype session_op =
    OpOpen open_env string string duration bool string bool
  | OpOpenLease open_env string string string duration string
  | OpResolve time string
  | OpRevoke time string
  | OpRevokeAll time
  | OpPrune time
  | OpRevokeLease time string
  | OpRevokeConsumer time string
  | OpRegister time "int \<Rightarrow> string + string" string int
  | OpResolveProcess time "int \<Rightarrow> string + string" "int \<Rightarrow> int option" int

fun session_step :: "session_op \<Rightarrow> session_store \<Rightarrow> session_store" where
  "session_step (OpOpen e h r ttl a c i) s = snd (open_session e h r ttl a c i s)"
| "session_step (OpOpenLease e h sec sc ttl c) s = snd (open_lease e h sec sc ttl c s)"
| "session_step (OpResolve now tok) s = snd (resolve now tok s)"
| "session_step (OpRevoke now tok) s = snd (revoke now tok s)"
| "session_step (OpRevokeAll now) s = snd (revoke_all now s)"
| "session_step (OpPrune now) s = prune_expired now s"
| "session_step (OpRevokeLease now i) s = snd (revoke_lease_id now i s)"
| "session_step (OpRevokeConsumer now c) s = snd (revoke_all_for_consumer now c s)"
| "session_step (OpRegister now probe tok pid) s = snd (register_process now probe tok pid s)"
| "session_step (OpResolveProcess now probe parent pid) s = snd (resolve_process now probe parent pid s)"

fun session_run :: "session_op list \<Rightarrow> session_store \<Rightarrow> session_store" where
  "session_run [] s = s"
| "session_run (x # xs) s = session_run xs (session_step x s)"

text \<open>Whether an operation mints the token \<open>tok\<close> anew (the generator repeated itself).\<close>

fun mints_token :: "string \<Rightarrow> session_op \<Rightarrow> bool" where
  "mints_token tok (OpOpen e h r ttl a c i) \<longleftrightarrow> oe_token e = Some tok"
| "mints_token tok (OpOpenLease e h sec sc ttl c) \<longleftrightarrow> oe_token e = Some tok"
| "mints_token tok _ \<longleftrightarrow> False"

definition holds_for :: "(session \<Rightarrow> bool) \<Rightarrow> string \<Rightarrow> session_store \<Rightarrow> bool" where
  "holds_for P tok s \<longleftrightarrow> (\<exists>se. map_of (ss_sessions s) tok = Some se \<and> P se)"

lemmas session_entry_defs = mark_expired_def mark_revoked_def revoke_entry_def live_def

lemma store_simps [simp]:
  "ss_sessions (mark_process_identity_degraded r s) = ss_sessions s"
  "ss_processes (mark_process_identity_degraded r s) = ss_processes s"
  "ss_idle_ttl (mark_process_identity_degraded r s) = ss_idle_ttl s"
  "ss_sessions (forget_process a s) = ss_sessions s"
  "ss_processes (forget_process a s) = del a (ss_processes s)"
  "ss_idle_ttl (forget_process a s) = ss_idle_ttl s"
  by (simp_all add: mark_process_identity_degraded_def forget_process_def)

lemma new_session_token: "new_session e h r ttl a c = Inr se \<Longrightarrow> oe_token e = Some (se_token se)"
  by (auto simp: new_session_def split: if_splits option.splits)

text \<open>A fact about a session record that the store's three kinds of update keep: the time of last
  use, expiry and revocation. Such a fact, once true of the session behind a token, stays true
  through every operation that does not mint the token again.\<close>

locale session_fact =
  fixes P :: "session \<Rightarrow> bool"
  assumes keeps_seen: "P se \<Longrightarrow> P (se\<lparr>se_last_seen_at := t\<rparr>)"
    and keeps_expired: "P se \<Longrightarrow> P (mark_expired t se)"
    and keeps_revoked: "P se \<Longrightarrow> P (mark_revoked t se)"
begin

lemmas keeps = keeps_seen keeps_expired keeps_revoked

lemma holds_add: "holds_for P tok s \<Longrightarrow> se_token se \<noteq> tok \<Longrightarrow> holds_for P tok (add_session se s)"
  by (auto simp: holds_for_def add_session_def)

lemma holds_open:
  "holds_for P tok s \<Longrightarrow> oe_token e \<noteq> Some tok \<Longrightarrow> holds_for P tok (snd (open_session e h r ttl a c i s))"
  "holds_for P tok s \<Longrightarrow> oe_token e \<noteq> Some tok \<Longrightarrow> holds_for P tok (snd (open_lease e h sec sc ttl c s))"
  by (auto simp: open_session_def open_lease_def Let_def split: sum.split dest: new_session_token
      intro!: holds_add)

lemma holds_resolve: "holds_for P tok s \<Longrightarrow> holds_for P tok (snd (resolve now t s))"
  by (auto simp: resolve_def Let_def holds_for_def keeps split: option.split)

lemma holds_revoke: "holds_for P tok s \<Longrightarrow> holds_for P tok (snd (revoke now t s))"
  by (auto simp: revoke_def Let_def holds_for_def keeps split: option.split)

lemma holds_map_vals: "holds_for P tok s \<Longrightarrow> ss_sessions s' = map_vals f (ss_sessions s)
   \<Longrightarrow> (\<And>k se. P se \<Longrightarrow> P (f k se)) \<Longrightarrow> holds_for P tok s'"
  by (auto simp: holds_for_def)

lemma holds_revoke_all: "holds_for P tok s \<Longrightarrow> holds_for P tok (snd (revoke_all now s))"
  by (rule holds_map_vals [where f = "\<lambda>_. revoke_entry (ss_idle_ttl s) now"])
    (auto simp: revoke_all_def revoke_entry_def keeps)

lemma holds_prune: "holds_for P tok s \<Longrightarrow> holds_for P tok (prune_expired now s)"
  by (rule holds_map_vals [where f = "\<lambda>_ se. if session_expired (ss_idle_ttl s) se now
        then mark_expired now se else se"]) (auto simp: prune_expired_def Let_def keeps)

lemma holds_revoke_consumer: "holds_for P tok s \<Longrightarrow> holds_for P tok (snd (revoke_all_for_consumer now c s))"
  by (auto simp: revoke_all_for_consumer_def Let_def keeps intro!: holds_map_vals [of tok s])

lemma holds_register: "holds_for P tok s \<Longrightarrow> holds_for P tok (snd (register_process now probe t pid s))"
  by (auto simp: register_process_def Let_def holds_for_def keeps split: option.split sum.split)

lemma holds_check: "holds_for P tok s \<Longrightarrow> holds_for P tok (snd (check_ancestor now probe a s))"
  by (auto simp: check_ancestor_def Let_def holds_for_def keeps split: option.split sum.split)

lemma holds_scan: "holds_for P tok s \<Longrightarrow> holds_for P tok (snd (scan_lineage now probe as s))"
proof (induction as arbitrary: s)
  case (Cons a as)
  then show ?case using holds_check [of tok s now probe a] by (auto split: prod.split option.split)
qed simp

lemma holds_revoke_lease: "wf_map (ss_sessions s) \<Longrightarrow> holds_for P tok s
   \<Longrightarrow> holds_for P tok (snd (revoke_lease_id now i s))"
proof -
  assume wf: "wf_map (ss_sessions s)" and h: "holds_for P tok s"
  have "find (\<lambda>(_, se). se_id se = trim i) (ss_sessions s) = Some (k, se)
      \<Longrightarrow> map_of (ss_sessions s) k = Some se" for k se
    by (metis (no_types, lifting) wf find_Some_iff in_set_iff_map_of nth_mem)
  with h show ?thesis
    by (auto simp: revoke_lease_id_def Let_def holds_for_def keeps split: option.split)
qed

lemma holds_step:
  "wf_map (ss_sessions s) \<Longrightarrow> holds_for P tok s \<Longrightarrow> \<not> mints_token tok x
   \<Longrightarrow> holds_for P tok (session_step x s)"
  by (cases x) (auto simp: holds_open holds_resolve holds_revoke holds_revoke_all holds_prune
      holds_revoke_lease holds_revoke_consumer holds_register resolve_process_def holds_scan)

end

text \<open>The store keeps one entry per token.\<close>

lemma wf_check: "wf_map (ss_sessions s) \<Longrightarrow> wf_map (ss_sessions (snd (check_ancestor now probe a s)))"
  by (auto simp: check_ancestor_def Let_def split: option.split sum.split)

lemma wf_scan: "wf_map (ss_sessions s) \<Longrightarrow> wf_map (ss_sessions (snd (scan_lineage now probe as s)))"
proof (induction as arbitrary: s)
  case (Cons a as)
  then show ?case using wf_check [of s now probe a] by (auto split: prod.split option.split)
qed simp

lemma wf_session_step: "wf_map (ss_sessions s) \<Longrightarrow> wf_map (ss_sessions (session_step x s))"
  by (cases x) (auto simp: open_session_def open_lease_def add_session_def resolve_def revoke_def
      revoke_all_def prune_expired_def revoke_lease_id_def revoke_all_for_consumer_def
      register_process_def resolve_process_def wf_scan Let_def split: option.split sum.split)

lemma wf_session_run: "wf_map (ss_sessions s) \<Longrightarrow> wf_map (ss_sessions (session_run xs s))"
  by (induction xs arbitrary: s) (simp_all add: wf_session_step)

context session_fact
begin

lemma holds_run:
  "wf_map (ss_sessions s) \<Longrightarrow> holds_for P tok s \<Longrightarrow> \<forall>x\<in>set xs. \<not> mints_token tok x
   \<Longrightarrow> holds_for P tok (session_run xs s)"
  by (induction xs arbitrary: s) (simp_all add: holds_step wf_session_step)

end

text \<open>Two such facts: being revoked, and everything fixed when the session was opened.\<close>

interpretation revoked: session_fact "\<lambda>se. se_revoked_at se \<noteq> None"
  by unfold_locales (simp_all add: session_entry_defs)

definition same_grant :: "session \<Rightarrow> session \<Rightarrow> bool" where
  "same_grant a b \<longleftrightarrow>
     se_id a = se_id b \<and> se_token a = se_token b \<and> se_local_user a = se_local_user b \<and>
     se_host_label a = se_host_label b \<and> se_project_root a = se_project_root b \<and>
     se_agent_safe a = se_agent_safe b \<and> se_consumer_name a = se_consumer_name b \<and>
     se_internal a = se_internal b \<and> se_opened_at a = se_opened_at b \<and>
     se_expires_at a = se_expires_at b"

interpretation granted: session_fact "same_grant a" for a
  by unfold_locales (simp_all add: same_grant_def session_entry_defs)

abbreviation dead :: "string \<Rightarrow> session_store \<Rightarrow> bool" where
  "dead \<equiv> holds_for (\<lambda>se. se_revoked_at se \<noteq> None)"

lemma dead_resolve: "dead tok s \<Longrightarrow> fst (resolve now tok s) = None"
  by (auto simp: holds_for_def resolve_def)

lemma check_ancestor_Some:
  "fst (check_ancestor now probe a s) = Some (se', tok) \<Longrightarrow>
   \<exists>b se. map_of (ss_processes s) a = Some b \<and> pb_token b = tok \<and> pb_identity b \<noteq> []
     \<and> probe a = Inr (pb_identity b) \<and> map_of (ss_sessions s) tok = Some se
     \<and> live (ss_idle_ttl s) now se \<and> se' = se\<lparr>se_last_seen_at := now\<rparr>"
  by (auto simp: check_ancestor_def live_def Let_def split: option.splits sum.splits if_splits)

lemma not_live [simp]:
  "\<not> live idle now (mark_expired now' se)"
  "se_revoked_at se \<noteq> None \<or> session_expired idle se now \<Longrightarrow> \<not> live idle now se"
  by (auto simp: live_def mark_expired_def)

lemma check_ancestor_processes:
  "map_of (ss_processes (snd (check_ancestor now probe a s))) p = Some b
   \<Longrightarrow> map_of (ss_processes s) p = Some b"
  by (auto simp: check_ancestor_def Let_def split: option.splits sum.splits if_splits)

lemma check_ancestor_idle: "ss_idle_ttl (snd (check_ancestor now probe a s)) = ss_idle_ttl s"
  by (auto simp: check_ancestor_def Let_def split: option.split sum.split)

lemma check_ancestor_sessions:
  assumes "fst (check_ancestor now probe a s) = None"
  shows "ss_sessions (snd (check_ancestor now probe a s)) = ss_sessions s
    \<or> (\<exists>tok se. ss_sessions (snd (check_ancestor now probe a s)) = put tok (mark_expired now se) (ss_sessions s))"
  using assms by (auto simp: check_ancestor_def Let_def split: option.splits sum.splits if_splits)

lemma check_ancestor_frame:
  assumes none: "fst (check_ancestor now probe a s) = None"
    and se: "map_of (ss_sessions (snd (check_ancestor now probe a s))) tok = Some se"
    and alive: "live (ss_idle_ttl s) now se"
  shows "map_of (ss_sessions s) tok = Some se"
  using check_ancestor_sessions [OF none] se alive by (auto split: if_splits)

lemma scan_lineage_Some:
  "fst (scan_lineage now probe as s) = Some (se', tok) \<Longrightarrow>
   \<exists>a b se. a \<in> set as \<and> map_of (ss_processes s) a = Some b \<and> pb_token b = tok \<and> pb_identity b \<noteq> []
     \<and> probe a = Inr (pb_identity b) \<and> map_of (ss_sessions s) tok = Some se
     \<and> live (ss_idle_ttl s) now se \<and> se' = se\<lparr>se_last_seen_at := now\<rparr>"
proof (induction as arbitrary: s)
  case (Cons a as)
  show ?case
  proof (cases "fst (check_ancestor now probe a s)")
    case None
    let ?s = "snd (check_ancestor now probe a s)"
    from None Cons.prems have "fst (scan_lineage now probe as ?s) = Some (se', tok)"
      by (auto split: prod.splits)
    note Cons.IH [OF this]
    then show ?thesis
      using check_ancestor_frame [OF None] check_ancestor_processes check_ancestor_idle
      by (metis list.set_intros(2))
  next
    case (Some r)
    with Cons.prems have "fst (check_ancestor now probe a s) = Some (se', tok)"
      by (auto split: prod.splits)
    from check_ancestor_Some [OF this] show ?thesis by auto
  qed
qed simp

section \<open>Properties\<close>

text \<open>C13: A session that resolves, after any run of the store, still carries the user, project and
  consumer it was opened with, and resolves no later than its time to live allows, however
  often it was used.\<close>

theorem session_lifetime:
  assumes wf: "wf_map (ss_sessions s0)"
    and opened: "open_session e host root ttl agent_safe consumer internal s0 = (Inr se, s1)"
    and fresh: "\<forall>x\<in>set xs. \<not> mints_token (se_token se) x"
    and res: "fst (resolve now (se_token se) (session_run xs s1)) = Some r"
  shows "same_grant se r \<and> now \<le> oe_now e + ttl \<and> se_project_root r = oe_canon e root
    \<and> oe_user e = Some (se_local_user r) \<and> se_consumer_name r = trim consumer"
proof -
  let ?s = "session_run xs s1"
  from opened have s1: "s1 = add_session se s0"
    and se: "se_expires_at se = oe_now e + ttl" "se_project_root se = oe_canon e root"
      "oe_user e = Some (se_local_user se)" "se_consumer_name se = trim consumer"
    by (auto simp: open_session_def new_session_def Let_def split: sum.splits if_splits option.splits)
  have "holds_for (same_grant se) (se_token se) s1"
    by (simp add: s1 add_session_def holds_for_def same_grant_def)
  moreover have "wf_map (ss_sessions s1)" using wf by (simp add: s1 add_session_def)
  ultimately have "holds_for (same_grant se) (se_token se) ?s"
    using fresh by (intro granted.holds_run)
  then obtain u where u: "map_of (ss_sessions ?s) (se_token se) = Some u" "same_grant se u"
    by (auto simp: holds_for_def)
  with res have r: "r = u\<lparr>se_last_seen_at := now\<rparr>" and "\<not> session_expired (ss_idle_ttl ?s) u now"
    by (auto simp: resolve_def Let_def split: if_splits)
  then have "now \<le> se_expires_at u" by (simp add: session_expired_def split: if_splits)
  with u(2) se r show ?thesis by (auto simp: same_grant_def)
qed

definition sample_env :: open_env where
  "sample_env = \<lparr>oe_now = 0, oe_user = Some ''dev'', oe_id = Some ''1'', oe_token = Some ''tok'',
     oe_canon = (\<lambda>p. p)\<rparr>"

definition sample_session :: session where
  "sample_session = \<lparr>se_id = ''1'', se_token = ''tok'', se_local_user = ''dev'', se_host_label = ''h'',
     se_project_root = ''/p'', se_agent_safe = True, se_consumer_name = ''cli'', se_internal = False,
     se_opened_at = 0, se_expires_at = hour, se_last_seen_at = 0, se_revoked_at = None,
     se_lease_status = [], se_lease_secret_id = [], se_lease_scope = []\<rparr>"

lemma sample_open:
  "open_session sample_env ''h'' ''/p'' hour True ''cli'' False new_session_store
     = (Inr sample_session, add_session sample_session new_session_store)"
  by (simp add: open_session_def new_session_def sample_env_def sample_session_def Let_def hour_def
      minute_def second_def)

lemmas sample_defs = sample_session_def new_session_store_def add_session_def
  resolve_def session_expired_def hour_def minute_def second_def default_vault_idle_timeout_def
  time_sub_def Let_def

theorem session_lifetime_witness:
  "\<exists>r. fst (resolve (2 * minute) ''tok''
        (session_run [OpResolve minute ''tok''] (add_session sample_session new_session_store))) = Some r
     \<and> same_grant sample_session r \<and> 2 * minute \<le> hour"
proof -
  let ?s1 = "add_session sample_session new_session_store"
  have tok: "se_token sample_session = ''tok''" by (simp add: sample_session_def)
  obtain r where r: "fst (resolve (2 * minute) (se_token sample_session)
      (session_run [OpResolve minute ''tok''] ?s1)) = Some r"
    by (simp add: sample_defs put_def)
  have "wf_map (ss_sessions new_session_store)" by (simp add: new_session_store_def)
  from session_lifetime [OF this sample_open _ r] have "same_grant sample_session r" by simp
  with r tok show ?thesis by (auto simp: hour_def minute_def second_def)
qed

text \<open>C22: Revocation is final: after \<open>Revoke\<close> succeeds the token never resolves again and no
  process inherits the session, whatever operations follow.\<close>

theorem revoked_session_stays_revoked:
  assumes wf: "wf_map (ss_sessions s)"
    and rev: "revoke now tok s = (True, s1)"
    and fresh: "\<forall>x\<in>set xs. \<not> mints_token tok x"
  shows "fst (resolve t tok (session_run xs s1)) = None
    \<and> fst (resolve_process t probe parent pid (session_run xs s1)) \<noteq> Some (se, tok)"
proof -
  from rev have "dead tok s1" and "wf_map (ss_sessions s1)"
    using wf by (auto simp: revoke_def holds_for_def mark_revoked_def split: option.splits if_splits)
  with fresh have d: "dead tok (session_run xs s1)" by (intro revoked.holds_run)
  then have "fst (resolve_process t probe parent pid (session_run xs s1)) \<noteq> Some (se, tok)"
    by (auto simp: resolve_process_def holds_for_def live_def dest!: scan_lineage_Some)
  with d show ?thesis by (simp add: dead_resolve)
qed

theorem revoked_session_stays_revoked_witness:
  "fst (revoke 5 ''tok'' (add_session sample_session new_session_store))
   \<and> fst (resolve 6 ''tok'' (session_run [OpPrune 6]
        (snd (revoke 5 ''tok'' (add_session sample_session new_session_store))))) = None"
proof -
  let ?s = "add_session sample_session new_session_store"
  obtain s1 where s1: "revoke 5 ''tok'' ?s = (True, s1)"
    by (simp add: revoke_def sample_session_def new_session_store_def add_session_def)
  have "wf_map (ss_sessions ?s)" by (simp add: new_session_store_def add_session_def)
  from revoked_session_stays_revoked [OF this s1, of "[OpPrune 6]" 6] s1 show ?thesis by simp
qed

text \<open>Locking the daemon (\<open>RevokeAll\<close>) leaves no session that resolves and no process binding,
  reports exactly the sessions that were live, and the store counts as locked.\<close>

theorem revoke_all_locks:
  shows "fst (resolve t tok (snd (revoke_all now s))) = None
    \<and> fst (resolve_process t probe parent pid (snd (revoke_all now s))) = None
    \<and> fst (is_locked t' t'' (snd (revoke_all now s)))
    \<and> fst (revoke_all now s)
        = map (mark_revoked now) (filter (live (ss_idle_ttl s) now) (vals (ss_sessions s)))"
proof -
  let ?s = "snd (revoke_all now s)"
  have "map_of (ss_sessions ?s) tok = Some se \<Longrightarrow> se_revoked_at se \<noteq> None" for se
    by (auto simp: revoke_all_def session_entry_defs)
  then have "fst (resolve t tok ?s) = None" by (auto simp: resolve_def split: option.split)
  moreover have "fst (scan_lineage t probe as ?s) = None" for as
  proof (cases "fst (scan_lineage t probe as ?s)")
    case (Some r)
    then show ?thesis using scan_lineage_Some [of t probe as ?s "fst r" "snd r"]
      by (auto simp: revoke_all_def)
  qed simp
  moreover have "ss_locked ?s" by (simp add: revoke_all_def)
  then have "fst (is_locked t' t'' ?s)" by (simp add: is_locked_def prune_expired_def Let_def)
  ultimately show ?thesis by (simp add: resolve_process_def revoke_all_def)
qed

text \<open>A process inherits a session only through an ancestor (or itself) that was registered
  for it and whose identity, probed again, is the one recorded; a reused process id does not.\<close>

theorem resolve_process_identity:
  assumes "fst (resolve_process now probe parent pid s) = Some (se', tok)"
  shows "\<exists>a b se. a \<in> set (process_lineage parent pid)
    \<and> map_of (ss_processes s) a = Some b \<and> pb_token b = tok \<and> pb_identity b \<noteq> []
    \<and> probe a = Inr (pb_identity b) \<and> map_of (ss_sessions s) tok = Some se
    \<and> se_revoked_at se = None \<and> now \<le> se_expires_at se"
proof -
  from scan_lineage_Some [OF assms [unfolded resolve_process_def]]
  show ?thesis by (auto simp: live_def session_expired_def split: if_splits)
qed

theorem resolve_process_identity_witness:
  "(let s = snd (register_process 0 (\<lambda>_. Inr ''id'') ''tok'' 7 (add_session sample_session new_session_store));
        r = fst (resolve_process 1 (\<lambda>_. Inr ''id'') (\<lambda>p. if p = 9 then Some 7 else None) 9 s)
    in r \<noteq> None \<and> (\<exists>a b. a \<in> set (process_lineage (\<lambda>p. if p = 9 then Some 7 else None) 9)
         \<and> map_of (ss_processes s) a = Some b \<and> pb_identity b = ''id''))"
proof -
  let ?s = "snd (register_process 0 (\<lambda>_. Inr ''id'') ''tok'' 7 (add_session sample_session new_session_store))"
  let ?p = "\<lambda>p. if p = 9 then Some 7 else None"
  have lin: "process_lineage ?p 9 = [9, 7]"
    by (simp add: process_lineage_def lineage_from.simps max_pid_def)
  obtain se' where r: "fst (resolve_process 1 (\<lambda>_. Inr ''id'') ?p 9 ?s) = Some (se', ''tok'')"
    unfolding resolve_process_def lin
    by (simp add: register_process_def check_ancestor_def sample_defs put_def)
  from resolve_process_identity [OF r] obtain a b where "a \<in> set (process_lineage ?p 9)"
    "map_of (ss_processes ?s) a = Some b" "Inr ''id'' = (Inr (pb_identity b) :: string + string)" by blast
  then show ?thesis unfolding Let_def r by auto
qed

lemma lineage_from_props:
  "distinct (lineage_from parent seen c) \<and> set (lineage_from parent seen c) \<inter> seen = {}
   \<and> (\<forall>p\<in>set (lineage_from parent seen c). 0 < p)"
proof (induction parent seen c rule: lineage_from.induct)
  case (1 parent seen c)
  note eq = lineage_from.simps [of parent seen c]
  consider "\<not> (0 < c \<and> c \<le> max_pid) \<or> c \<in> seen"
    | (last) "0 < c" "c \<le> max_pid" "c \<notin> seen"
        "parent c = None \<or> (\<exists>p. parent c = Some p \<and> (p \<le> 1 \<or> p = c))"
    | (next_one) p where "0 < c" "c \<le> max_pid" "c \<notin> seen" "parent c = Some p" "\<not> (p \<le> 1 \<or> p = c)"
    by (cases "parent c") auto
  then show ?case
  proof cases
    case 1
    then have "lineage_from parent seen c = []" by (auto simp: eq)
    then show ?thesis by simp
  next
    case last
    then have "lineage_from parent seen c = [c]" by (auto simp: eq)
    with last show ?thesis by simp
  next
    case next_one
    then have "lineage_from parent seen c = c # lineage_from parent (insert c seen) p"
      by (simp add: eq)
    with next_one "1.IH" [of p] show ?thesis by auto
  qed
qed

text \<open>C40: The ancestor walk ends for every parent table, visits no process twice and only
  positive ids.\<close>

theorem process_lineage_walk:
  "distinct (process_lineage parent pid)
   \<and> (\<forall>p\<in>set (process_lineage parent pid). 0 < p)
   \<and> (process_lineage parent pid \<noteq> [] \<longrightarrow> hd (process_lineage parent pid) = pid)"
proof -
  have "lineage_from parent {} pid \<noteq> [] \<Longrightarrow> hd (lineage_from parent {} pid) = pid"
    by (simp add: lineage_from.simps [of parent "{}" pid] split: if_splits)
  then show ?thesis
    using lineage_from_props [of parent "{}" pid] by (simp add: process_lineage_def)
qed

theorem process_lineage_walk_witness:
  "hd (process_lineage (\<lambda>_. Some 5) 8) = 8 \<and> process_lineage (\<lambda>_. Some 5) 8 \<noteq> []"
proof -
  have ne: "process_lineage (\<lambda>_. Some 5) 8 \<noteq> []"
    by (simp add: process_lineage_def lineage_from.simps max_pid_def)
  with process_lineage_walk [of "\<lambda>_. Some 5" 8] show ?thesis by blast
qed

end
