(* ===== verification/Config.thy ===== *)
theory Config
  imports Complex_Main Prelude
begin

text \<open>
  \<^verbatim>\<open>internal/store/config.go\<close>: the typed configuration document. A dynamically
  typed value is a \<open>config_value\<close>; a finite \<open>float64\<close> is the rational number it is. The
  theorems: a normalised document has exactly the known keys with values their validators
  accept, and it survives being written to and read from JSON.
\<close>

datatype config_value =
    CInt int | CInt64 int | CFloat rat | CBool bool | CStr string
  | CStrs "string list" | CAny "config_value list" | COther

datatype config_error =
    ConfigKeyNotFound string
  | MustBeBoolean string | MustBeInteger string | MustBeBetween string int int
  | MustBeString string | TooLong string | MustBeOneOf string "string list"
  | MustBeStringArray string | EmptyTarget string | OnlyAllowed string "string list"

section \<open>Validators\<close>

text \<open>A conversion \<open>int(x)\<close> of a float outside \<open>int64\<close> gives no usable integer and is
  rejected.\<close>

definition int_from_config :: "config_value \<Rightarrow> int option" where
  "int_from_config v =
     (case v of
        CInt i \<Rightarrow> Some i
      | CInt64 i \<Rightarrow> if int64_range i then Some i else None
      | CFloat r \<Rightarrow> if r = of_int \<lfloor>r\<rfloor> \<and> int64_range \<lfloor>r\<rfloor> then Some \<lfloor>r\<rfloor> else None
      | _ \<Rightarrow> None)"

definition validate_bool :: "string \<Rightarrow> config_value \<Rightarrow> config_error + config_value" where
  "validate_bool key v = (case v of CBool b \<Rightarrow> Inr (CBool b) | _ \<Rightarrow> Inl (MustBeBoolean key))"

definition validate_int_range :: "string \<Rightarrow> int \<Rightarrow> int \<Rightarrow> config_value \<Rightarrow> config_error + config_value" where
  "validate_int_range key lo hi v =
     (case int_from_config v of
        None \<Rightarrow> Inl (MustBeInteger key)
      | Some i \<Rightarrow> if i < lo \<or> hi < i then Inl (MustBeBetween key lo hi) else Inr (CInt i))"

definition validate_string :: "string \<Rightarrow> nat \<Rightarrow> config_value \<Rightarrow> config_error + config_value" where
  "validate_string key max_len v =
     (case v of
        CStr s \<Rightarrow> if max_len < length (trim s) then Inl (TooLong key) else Inr (CStr (trim s))
      | _ \<Rightarrow> Inl (MustBeString key))"

definition validate_enum :: "string \<Rightarrow> string list \<Rightarrow> config_value \<Rightarrow> config_error + config_value" where
  "validate_enum key allowed v =
     (case v of
        CStr s \<Rightarrow> if trim s \<notin> set allowed then Inl (MustBeOneOf key allowed) else Inr (CStr (trim s))
      | _ \<Rightarrow> Inl (MustBeString key))"

fun strings_of :: "config_value list \<Rightarrow> string list option" where
  "strings_of [] = Some []"
| "strings_of (v # vs) =
     (case v of CStr s \<Rightarrow> map_option (\<lambda>ss. s # ss) (strings_of vs) | _ \<Rightarrow> None)"

definition string_slice :: "config_value \<Rightarrow> string list option" where
  "string_slice v = (case v of CStrs ss \<Rightarrow> Some ss | CAny vs \<Rightarrow> strings_of vs | _ \<Rightarrow> None)"

text \<open>The two loops over the strings: the first rejects empty and unknown targets, the second
  skips empty ones; both drop repetitions.\<close>

fun collect_allowed :: "string \<Rightarrow> string list \<Rightarrow> string list \<Rightarrow> string list \<Rightarrow> config_error + string list" where
  "collect_allowed key allowed out [] = Inr out"
| "collect_allowed key allowed out (v # vs) =
     (if trim v = [] then Inl (EmptyTarget key)
      else if trim v \<notin> set allowed then Inl (OnlyAllowed key allowed)
      else if trim v \<in> set out then collect_allowed key allowed out vs
      else collect_allowed key allowed (out @ [trim v]) vs)"

fun collect_any :: "string list \<Rightarrow> string list \<Rightarrow> string list" where
  "collect_any out [] = out"
| "collect_any out (v # vs) =
     (if trim v = [] then collect_any out vs
      else if trim v \<in> set out then collect_any out vs
      else collect_any (out @ [trim v]) vs)"

definition sort_strings :: "string list \<Rightarrow> string list" where
  "sort_strings = sort_on (\<lambda>s. s)"

definition validate_string_slice :: "string \<Rightarrow> string list \<Rightarrow> config_value \<Rightarrow> config_error + config_value" where
  "validate_string_slice key allowed v =
     (case string_slice v of
        None \<Rightarrow> Inl (MustBeStringArray key)
      | Some ss \<Rightarrow> (case collect_allowed key allowed [] ss of
            Inl e \<Rightarrow> Inl e | Inr out \<Rightarrow> Inr (CStrs (sort_strings out))))"

definition validate_any_string_slice :: "string \<Rightarrow> config_value \<Rightarrow> config_error + config_value" where
  "validate_any_string_slice key v =
     (case string_slice v of
        None \<Rightarrow> Inl (MustBeStringArray key)
      | Some ss \<Rightarrow> Inr (CStrs (sort_strings (collect_any [] ss))))"

section \<open>The specification table and the document\<close>

record config_spec =
  cs_default :: config_value
  cs_validate :: "config_value \<Rightarrow> config_error + config_value"

definition spec_entry :: "string \<Rightarrow> config_value \<Rightarrow> (string \<Rightarrow> config_value \<Rightarrow> config_error + config_value)
    \<Rightarrow> string \<times> config_spec" where
  "spec_entry key d val = (key, \<lparr>cs_default = d, cs_validate = val key\<rparr>)"

definition config_specs :: "config_spec gomap" where
  "config_specs =
    [spec_entry ''vault.idle_relock_s'' (CInt 600) (\<lambda>k. validate_int_range k 30 86400),
     spec_entry ''vault.auto_relock_enabled'' (CBool True) validate_bool,
     spec_entry ''vault.biometric_unlock_enabled'' (CBool True) validate_bool,
     spec_entry ''audit.retention_days'' (CInt 90) (\<lambda>k. validate_int_range k 1 3650),
     spec_entry ''audit.export_format_default'' (CStr ''ndjson'') (\<lambda>k. validate_enum k [''ndjson'']),
     spec_entry ''reveal.scrub_seconds'' (CInt 30) (\<lambda>k. validate_int_range k 5 3600),
     spec_entry ''clipboard.scrub_seconds'' (CInt 60) (\<lambda>k. validate_int_range k 5 3600),
     spec_entry ''notifications.approvals_enabled'' (CBool True) validate_bool,
     spec_entry ''notifications.expiring_lease_threshold_s'' (CInt 1800) (\<lambda>k. validate_int_range k 60 86400),
     spec_entry ''notifications.critical_consumer_ids'' (CStrs []) validate_any_string_slice,
     spec_entry ''ui.language'' (CStr ''system'') (\<lambda>k. validate_enum k [''system'', ''en'']),
     spec_entry ''ui.reduce_motion_override'' (CStr ''system'') (\<lambda>k. validate_enum k [''system'', ''on'', ''off'']),
     spec_entry ''ui.differentiate_without_color'' (CBool False) validate_bool,
     spec_entry ''updates.channel'' (CStr ''stable'') (\<lambda>k. validate_enum k [''stable'', ''beta'']),
     spec_entry ''integrations.disabled_targets'' (CStrs [])
       (\<lambda>k. validate_string_slice k [''env-injection'', ''mcp'', ''shell-hook'']),
     spec_entry ''backup.schedule'' (CStr ''off'') (\<lambda>k. validate_enum k [''off'', ''daily'', ''weekly'']),
     spec_entry ''backup.retention_count'' (CInt 5) (\<lambda>k. validate_int_range k 1 90),
     spec_entry ''backup.destination_path'' (CStr []) (\<lambda>k. validate_string k 4096),
     spec_entry ''backup.last_backup_at'' (CStr []) (\<lambda>k. validate_string k 128),
     spec_entry ''backup.last_backup_path'' (CStr []) (\<lambda>k. validate_string k 4096)]"

type_synonym config_document = "config_value gomap"

definition apply_entry :: "string \<times> config_value \<Rightarrow> config_document \<Rightarrow> config_document" where
  "apply_entry kv out =
     (let key = trim (fst kv) in
      case map_of config_specs key of
        None \<Rightarrow> out
      | Some spec \<Rightarrow> (case cs_validate spec (snd kv) of Inl _ \<Rightarrow> out | Inr v \<Rightarrow> put key v out))"

definition default_config :: config_document where
  "default_config = map_vals (\<lambda>_. cs_default) config_specs"

definition normalize_config_document :: "config_document \<Rightarrow> config_document" where
  "normalize_config_document doc = fold apply_entry doc default_config"

definition get_config_value :: "string \<Rightarrow> config_document \<Rightarrow> config_error + config_value" where
  "get_config_value key doc =
     (case map_of (normalize_config_document doc) (trim key) of
        None \<Rightarrow> Inl (ConfigKeyNotFound (trim key)) | Some v \<Rightarrow> Inr v)"

text \<open>The document a successful \<open>SetConfigValue\<close> stores, from the one it finds.\<close>

definition set_config_document :: "string \<Rightarrow> config_value \<Rightarrow> config_document \<Rightarrow> config_error + config_document" where
  "set_config_document raw value doc =
     (let key = trim raw in
      case map_of config_specs key of
        None \<Rightarrow> Inl (ConfigKeyNotFound key)
      | Some spec \<Rightarrow> (case cs_validate spec value of
            Inl e \<Rightarrow> Inl e
          | Inr v \<Rightarrow> Inr (put key v (normalize_config_document doc))))"

text \<open>Writing a value to JSON and reading it back into \<open>any\<close>.\<close>

definition json_value :: "config_value \<Rightarrow> config_value" where
  "json_value v = (case v of
      CInt i \<Rightarrow> CFloat (of_int i) | CInt64 i \<Rightarrow> CFloat (of_int i)
    | CStrs ss \<Rightarrow> CAny (map CStr ss) | _ \<Rightarrow> v)"

definition json_config :: "config_document \<Rightarrow> config_document" where
  "json_config doc = map_vals (\<lambda>_. json_value) doc"

section \<open>The contract of a validator\<close>

text \<open>What a validator returns it accepts again, unchanged, also after a trip through JSON.\<close>

locale validator =
  fixes val :: "config_value \<Rightarrow> config_error + config_value"
  assumes fixpoint: "val v = Inr n \<Longrightarrow> val n = Inr n"
    and json: "val v = Inr n \<Longrightarrow> val (json_value n) = Inr n"

interpretation bool_v: validator "validate_bool key" for key
  by unfold_locales (auto simp: validate_bool_def json_value_def split: config_value.splits)

lemma int_range_validator:
  "int64_range lo \<Longrightarrow> int64_range hi \<Longrightarrow> validator (validate_int_range key lo hi)"
  by unfold_locales
    (auto simp: validate_int_range_def int_from_config_def json_value_def int64_range_def
      split: config_value.splits if_splits)

interpretation string_v: validator "validate_string key n" for key n
  by unfold_locales (auto simp: validate_string_def json_value_def split: config_value.splits if_splits)

interpretation enum_v: validator "validate_enum key allowed" for key allowed
  by unfold_locales (auto simp: validate_enum_def json_value_def split: config_value.splits if_splits)

lemma strings_of_map [simp]: "strings_of (map CStr ss) = Some ss"
  by (induction ss) auto

definition clean :: "string \<Rightarrow> bool" where
  "clean s \<longleftrightarrow> trim s = s \<and> s \<noteq> []"

lemma clean_trim: "trim v \<noteq> [] \<Longrightarrow> clean (trim v)"
  by (simp add: clean_def)

lemma cleanD: "clean s \<Longrightarrow> trim s = s" "clean s \<Longrightarrow> s \<noteq> []"
  by (simp_all add: clean_def)

lemma collect_allowed_out:
  "collect_allowed key allowed out vs = Inr r \<Longrightarrow> distinct out \<Longrightarrow>
     \<forall>s\<in>set out. clean s \<and> s \<in> set allowed \<Longrightarrow>
     distinct r \<and> (\<forall>s\<in>set r. clean s \<and> s \<in> set allowed)"
proof (induction vs arbitrary: out)
  case (Cons v vs)
  show ?case
  proof (cases "trim v \<in> set out")
    case True
    with Cons show ?thesis by (simp split: if_splits)
  next
    case False
    with Cons.prems(1) have "collect_allowed key allowed (out @ [trim v]) vs = Inr r"
      and "clean (trim v) \<and> trim v \<in> set allowed"
      by (simp_all add: clean_trim split: if_splits)
    with Cons.IH [of "out @ [trim v]"] Cons.prems(2,3) False show ?thesis by simp
  qed
qed simp

lemma collect_allowed_clean:
  "distinct (out @ vs) \<Longrightarrow> \<forall>s\<in>set vs. clean s \<and> s \<in> set allowed \<Longrightarrow>
     collect_allowed key allowed out vs = Inr (out @ vs)"
  by (induction vs arbitrary: out) (auto simp: cleanD)

lemma collect_any_out:
  "distinct out \<Longrightarrow> \<forall>s\<in>set out. clean s \<Longrightarrow>
     distinct (collect_any out vs) \<and> (\<forall>s\<in>set (collect_any out vs). clean s)"
proof (induction vs arbitrary: out)
  case (Cons v vs)
  show ?case
  proof (cases "trim v = [] \<or> trim v \<in> set out")
    case True
    with Cons.IH [of out] Cons.prems show ?thesis by auto
  next
    case False
    then have "clean (trim v)" by (simp add: clean_trim)
    with Cons.IH [of "out @ [trim v]"] Cons.prems False show ?thesis by simp
  qed
qed simp

lemma collect_any_clean:
  "distinct (out @ vs) \<Longrightarrow> \<forall>s\<in>set vs. clean s \<Longrightarrow> collect_any out vs = out @ vs"
  by (induction vs arbitrary: out) (auto simp: cleanD)

lemma sort_strings_idem [simp]: "sort_strings (sort_strings xs) = sort_strings xs"
  unfolding sort_strings_def by (rule sort_on_perm) auto

interpretation slice_v: validator "validate_string_slice key allowed" for key allowed
proof unfold_locales
  fix v n
  assume "validate_string_slice key allowed v = Inr n"
  then obtain ss out where "collect_allowed key allowed [] ss = Inr out" and n: "n = CStrs (sort_strings out)"
    by (auto simp: validate_string_slice_def split: option.splits sum.splits)
  then have "distinct out \<and> (\<forall>s\<in>set out. clean s \<and> s \<in> set allowed)"
    using collect_allowed_out [of key allowed "[]"] by simp
  then have "collect_allowed key allowed [] (sort_strings out) = Inr (sort_strings out)"
    using collect_allowed_clean [of "[]" "sort_strings out"] by (simp add: sort_strings_def)
  then show "validate_string_slice key allowed n = Inr n"
    and "validate_string_slice key allowed (json_value n) = Inr n"
    by (simp_all add: n validate_string_slice_def string_slice_def json_value_def)
qed

interpretation any_slice_v: validator "validate_any_string_slice key" for key
proof unfold_locales
  fix v n
  assume "validate_any_string_slice key v = Inr n"
  then obtain ss where n: "n = CStrs (sort_strings (collect_any [] ss))"
    by (auto simp: validate_any_string_slice_def split: option.splits)
  have "collect_any [] (sort_strings (collect_any [] ss)) = sort_strings (collect_any [] ss)"
    using collect_any_clean [of "[]" "sort_strings (collect_any [] ss)"] collect_any_out [of "[]" ss]
    by (simp add: sort_strings_def)
  then show "validate_any_string_slice key n = Inr n"
    and "validate_any_string_slice key (json_value n) = Inr n"
    by (simp_all add: n validate_any_string_slice_def string_slice_def json_value_def)
qed


section \<open>The table\<close>

lemma spec_validators: "\<forall>kv\<in>set config_specs. validator (cs_validate (snd kv))"
  unfolding config_specs_def spec_entry_def
  by (simp add: bool_v.validator_axioms string_v.validator_axioms enum_v.validator_axioms
      slice_v.validator_axioms any_slice_v.validator_axioms int_range_validator int64_range_def)

lemma spec_defaults: "\<forall>kv\<in>set config_specs. cs_validate (snd kv) (cs_default (snd kv)) = Inr (cs_default (snd kv))"
  unfolding config_specs_def spec_entry_def
  by (simp add: validate_bool_def validate_int_range_def validate_string_def validate_enum_def
      validate_string_slice_def validate_any_string_slice_def string_slice_def int_from_config_def
      sort_strings_def sort_on_def sort_by_def)

lemma spec_keys: "distinct (map fst config_specs)" "\<forall>kv\<in>set config_specs. visible (fst kv)"
  by (simp_all add: config_specs_def spec_entry_def)

lemma spec_lookup:
  assumes "map_of config_specs k = Some spec"
  shows "validator (cs_validate spec)" "trim k = k" "cs_validate spec (cs_default spec) = Inr (cs_default spec)"
proof -
  from assms have "(k, spec) \<in> set config_specs" by (rule map_of_SomeD)
  then show "validator (cs_validate spec)" "trim k = k"
    "cs_validate spec (cs_default spec) = Inr (cs_default spec)"
    using spec_validators spec_defaults spec_keys(2) by force+
qed

section \<open>Normalised documents\<close>

definition doc_ok :: "config_document \<Rightarrow> bool" where
  "doc_ok d \<longleftrightarrow> map fst d = map fst config_specs \<and>
     (\<forall>(k, v)\<in>set d. \<forall>spec. map_of config_specs k = Some spec \<longrightarrow>
        cs_validate spec v = Inr v \<and> cs_validate spec (json_value v) = Inr v)"

lemma put_known_key:
  "map fst d = map fst config_specs \<Longrightarrow> map_of config_specs k = Some spec \<Longrightarrow>
     map fst (put k v d) = map fst config_specs"
  by (metis domI dom_map_of_conv_image_fst put_def update_keys set_map)

lemma doc_ok_lookup:
  "doc_ok d \<longleftrightarrow> map fst d = map fst config_specs \<and>
     (\<forall>k v spec. map_of d k = Some v \<longrightarrow> map_of config_specs k = Some spec \<longrightarrow>
        cs_validate spec v = Inr v \<and> cs_validate spec (json_value v) = Inr v)"
proof (cases "map fst d = map fst config_specs")
  case True
  then have "distinct (map fst d)" using spec_keys(1) by simp
  then have *: "map_of d k = Some v \<longleftrightarrow> (k, v) \<in> set d" for k v by (rule map_of_eq_Some_iff)
  show ?thesis by (simp only: doc_ok_def *) blast
qed (simp add: doc_ok_def)

lemma doc_ok_put:
  assumes "doc_ok d" and spec: "map_of config_specs k = Some spec" and val: "cs_validate spec w = Inr v"
  shows "doc_ok (put k v d)"
proof -
  from spec_lookup(1) [OF spec] val have "cs_validate spec v = Inr v \<and> cs_validate spec (json_value v) = Inr v"
    by (meson validator.fixpoint validator.json)
  with assms(1) spec show ?thesis
    by (auto simp: doc_ok_lookup put_known_key)
qed

lemma doc_ok_default: "doc_ok default_config"
proof -
  have "cs_validate spec (cs_default spec) = Inr (cs_default spec) \<and>
      cs_validate spec (json_value (cs_default spec)) = Inr (cs_default spec)"
    if "map_of config_specs k = Some spec" for k spec
    using spec_lookup(1,3) [OF that] by (simp add: validator.json)
  moreover have "map fst default_config = map fst config_specs"
    by (simp add: default_config_def map_vals_def comp_def case_prod_beta)
  ultimately show ?thesis by (auto simp: doc_ok_lookup default_config_def)
qed

lemma doc_ok_normalize: "doc_ok (normalize_config_document doc)"
proof -
  have "doc_ok acc \<Longrightarrow> doc_ok (fold apply_entry doc acc)" for acc
    by (induction doc arbitrary: acc)
      (simp_all add: apply_entry_def Let_def doc_ok_put split: option.split sum.split)
  then show ?thesis by (simp add: normalize_config_document_def doc_ok_default)
qed

lemma same_keys_eqI:
  "map fst a = map fst b \<Longrightarrow> distinct (map fst a) \<Longrightarrow> \<forall>k. map_of a k = map_of b k \<Longrightarrow> a = b"
proof (induction a arbitrary: b)
  case (Cons x a)
  then obtain k v w b' where x: "x = (k, v)" and b: "b = (k, w) # b'" by (cases b; cases x) auto
  with Cons.prems(3) have "v = w" by (auto dest: spec [of _ k])
  have "map_of a j = map_of b' j" for j
  proof (cases "j = k")
    case True
    with Cons.prems(1,2) x b show ?thesis by (metis distinct.simps(2) fst_conv list.simps(9) map_of_eq_None_iff list.set_map list.inject)
  next
    case False
    with Cons.prems(3) x b show ?thesis by (auto dest: spec [of _ j])
  qed
  with Cons.IH [of b'] Cons.prems(1,2) x b \<open>v = w\<close> show ?case by simp
qed simp

lemma fold_apply_entry:
  assumes "\<forall>(k, v)\<in>set es. \<forall>out. apply_entry (k, g v) out = put k v out" and "wf_map es"
  shows "map_of (fold apply_entry (map_vals (\<lambda>_. g) es) acc) x
           = (case map_of es x of Some v \<Rightarrow> Some v | None \<Rightarrow> map_of acc x)"
  using assms
proof (induction es arbitrary: acc)
  case (Cons e es)
  obtain k v where e: "e = (k, v)" by force
  with Cons.prems(2) have "map_of es k = None" by (simp add: wf_map_def map_of_eq_None_iff)
  with Cons.IH [of "put k v acc"] Cons.prems e show ?case
    by (auto simp: map_vals_def wf_map_def split: option.split)
qed (simp add: map_vals_def)

text \<open>A normalised document is recovered from any image of it whose values its validators take
  back to the originals.\<close>

lemma normalize_recovers:
  assumes ok: "doc_ok d"
    and g: "\<And>k v spec. map_of d k = Some v \<Longrightarrow> map_of config_specs k = Some spec \<Longrightarrow> cs_validate spec (g v) = Inr v"
  shows "normalize_config_document (map_vals (\<lambda>_. g) d) = d"
proof (rule same_keys_eqI)
  have keys: "map fst d = map fst config_specs" using ok by (simp add: doc_ok_def)
  with spec_keys(1) have wf: "wf_map d" by (simp add: wf_map_def)
  show "map fst (normalize_config_document (map_vals (\<lambda>_. g) d)) = map fst d"
    using doc_ok_normalize keys by (simp add: doc_ok_def)
  then show "distinct (map fst (normalize_config_document (map_vals (\<lambda>_. g) d)))"
    using wf by (simp add: wf_map_def)
  have "apply_entry (k, g v) out = put k v out" if "(k, v) \<in> set d" for k v out
  proof -
    from that keys have "k \<in> fst ` set config_specs" by (metis fst_conv image_eqI list.set_map)
    then obtain spec where "map_of config_specs k = Some spec"
      by (metis map_of_eq_None_iff not_None_eq)
    moreover from this have "trim k = k" by (rule spec_lookup(2))
    ultimately show ?thesis using g [of k v spec] that wf
      by (simp add: apply_entry_def in_set_iff_map_of)
  qed
  then have "map_of (normalize_config_document (map_vals (\<lambda>_. g) d)) x
      = (case map_of d x of Some v \<Rightarrow> Some v | None \<Rightarrow> map_of default_config x)" for x
    unfolding normalize_config_document_def using wf by (intro fold_apply_entry) auto
  moreover have "map_of d x = None \<Longrightarrow> map_of default_config x = None" for x
    using keys by (metis default_config_def map_of_eq_None_iff list.set_map map_of_map_vals option.map(1))
  ultimately show "\<forall>x. map_of (normalize_config_document (map_vals (\<lambda>_. g) d)) x = map_of d x"
    by (auto split: option.split)
qed

lemma map_vals_id: "map_vals (\<lambda>_ v. v) d = d"
  by (simp add: map_vals_def)

lemma normalize_ok:
  assumes "doc_ok d"
  shows "normalize_config_document d = d" "normalize_config_document (json_config d) = d"
  using normalize_recovers [OF assms, of "\<lambda>v. v"] normalize_recovers [OF assms, of json_value] assms
  by (simp_all add: map_vals_id json_config_def doc_ok_lookup)

section \<open>Properties\<close>

text \<open>C38: Normalisation of any configuration document, however malformed, yields exactly the
  known keys in the table's order, every value one its validator accepts; it is idempotent, and
  a normalised document comes back unchanged from the JSON it is stored as.\<close>

theorem config_normal_form:
  "let d = normalize_config_document doc in
     map fst d = map fst config_specs \<and>
     list_all2 (\<lambda>kv ks. cs_validate (snd ks) (snd kv) = Inr (snd kv)) d config_specs \<and>
     normalize_config_document d = d \<and>
     normalize_config_document (json_config d) = d"
proof -
  let ?d = "normalize_config_document doc"
  have ok: "doc_ok ?d" by (rule doc_ok_normalize)
  then have keys: "map fst ?d = map fst config_specs" by (simp add: doc_ok_def)
  have "list_all2 (\<lambda>kv ks. cs_validate (snd ks) (snd kv) = Inr (snd kv)) ?d config_specs"
  proof (rule list_all2_all_nthI)
    show len: "length ?d = length config_specs" using keys by (metis length_map)
    fix i assume i: "i < length ?d"
    then have same: "fst (?d ! i) = fst (config_specs ! i)" using keys len by (metis nth_map)
    have "map_of config_specs (fst (config_specs ! i)) = Some (snd (config_specs ! i))"
      using i len spec_keys(1) by (metis map_of_eq_Some_iff nth_mem prod.collapse)
    with ok i same show "cs_validate (snd (config_specs ! i)) (snd (?d ! i)) = Inr (snd (?d ! i))"
      unfolding doc_ok_def by (metis (mono_tags, lifting) case_prodD nth_mem prod.collapse)
  qed
  with keys normalize_ok [OF ok] show ?thesis by (simp add: Let_def)
qed

text \<open>A successful \<open>SetConfigValue\<close> stores a value the key's validator accepts; reading the
  key from the stored document gives that value, every other key reads as before, and it fails
  on the unknown keys and rejected values only.\<close>

theorem config_set_get:
  "case set_config_document key value doc of
     Inl e \<Rightarrow> (map_of config_specs (trim key) = None \<and> e = ConfigKeyNotFound (trim key)) \<or>
        (\<exists>spec. map_of config_specs (trim key) = Some spec \<and> cs_validate spec value = Inl e)
   | Inr d \<Rightarrow> (\<exists>spec v. map_of config_specs (trim key) = Some spec \<and> cs_validate spec value = Inr v \<and>
        (\<forall>k. get_config_value k (json_config d) = (if trim k = trim key then Inr v else get_config_value k doc)))"
proof (cases "map_of config_specs (trim key)")
  case None
  then show ?thesis by (simp add: set_config_document_def)
next
  case (Some spec)
  show ?thesis
  proof (cases "cs_validate spec value")
    case (Inl e)
    with Some show ?thesis by (simp add: set_config_document_def)
  next
    case (Inr v)
    let ?d = "put (trim key) v (normalize_config_document doc)"
    have "doc_ok ?d" using doc_ok_put [OF doc_ok_normalize Some Inr] .
    then have "normalize_config_document (json_config ?d) = ?d" by (rule normalize_ok)
    with Some Inr show ?thesis by (simp add: set_config_document_def get_config_value_def)
  qed
qed

end
