(* ===== verification/Policy.thy ===== *)
theory Policy
  imports Prelude
begin

text \<open>
  \<^verbatim>\<open>internal/store/policy.go\<close>: the policy document, its normalisation and validation
  (\<open>ReplacePolicy\<close>, which stores one, is in the theory of the vault's documents). An accepted
  document gives at most one decision for each consumer, secret and scope.
\<close>

record policy_match =
  pm_consumer :: string
  pm_secret :: string
  pm_scope :: string

record policy_rule =
  pr_id :: string
  pr_match :: policy_match
  pr_decision :: string
  pr_ttl_s :: int
  pr_max_concurrent :: int
  pr_priority :: int

record policy_document =
  pd_version :: string
  pd_rules :: "policy_rule list"
  pd_updated_at :: time
  pd_updated_by :: string

datatype policy_error =
    RuleIdRequired nat
  | DuplicateRuleId string
  | RuleMatchRequired string
  | UnsupportedDecision string string
  | RuleTtlNegative string
  | RuleMaxConcurrentNegative string
  | RuleConflict string string policy_match

definition normalize_rule :: "policy_rule \<Rightarrow> policy_rule" where
  "normalize_rule r =
     r\<lparr>pr_id := trim (pr_id r),
       pr_match := \<lparr>pm_consumer = trim (pm_consumer (pr_match r)),
                   pm_secret = trim (pm_secret (pr_match r)),
                   pm_scope = trim (pm_scope (pr_match r))\<rparr>,
       pr_decision := trim (pr_decision r)\<rparr>"

definition normalize_policy_document :: "policy_document \<Rightarrow> policy_document" where
  "normalize_policy_document d =
     d\<lparr>pd_version := (if trim (pd_version d) = [] then ''0'' else trim (pd_version d)),
       pd_updated_by := (if trim (pd_updated_by d) = [] then ''system'' else trim (pd_updated_by d)),
       pd_rules := map normalize_rule (pd_rules d)\<rparr>"

definition match_key :: "policy_match \<Rightarrow> string" where
  "match_key m = join [CHR 0x00] [pm_consumer m, pm_secret m, pm_scope m]"

definition check_rule :: "nat \<Rightarrow> string list \<Rightarrow> policy_rule gomap \<Rightarrow> policy_rule \<Rightarrow> policy_error option" where
  "check_rule i seen_ids seen_match r =
     (if trim (pr_id r) = [] then Some (RuleIdRequired i)
      else if pr_id r \<in> set seen_ids then Some (DuplicateRuleId (pr_id r))
      else if pm_consumer (pr_match r) = [] \<or> pm_secret (pr_match r) = [] \<or> pm_scope (pr_match r) = []
        then Some (RuleMatchRequired (pr_id r))
      else if pr_decision r \<notin> {''allow'', ''deny'', ''require_approval''}
        then Some (UnsupportedDecision (pr_id r) (pr_decision r))
      else if pr_ttl_s r < 0 then Some (RuleTtlNegative (pr_id r))
      else if pr_max_concurrent r < 0 then Some (RuleMaxConcurrentNegative (pr_id r))
      else (case map_of seen_match (match_key (pr_match r)) of
          Some e \<Rightarrow> if pr_decision e \<noteq> pr_decision r
                    then Some (RuleConflict (pr_id r) (pr_id e) (pr_match r)) else None
        | None \<Rightarrow> None))"

fun check_rules :: "nat \<Rightarrow> string list \<Rightarrow> policy_rule gomap \<Rightarrow> policy_rule list \<Rightarrow> policy_error option" where
  "check_rules i seen_ids seen_match [] = None"
| "check_rules i seen_ids seen_match (r # rs) =
     (case check_rule i seen_ids seen_match r of
        Some e \<Rightarrow> Some e
      | None \<Rightarrow> check_rules (Suc i) (pr_id r # seen_ids)
                  (put (match_key (pr_match r)) r seen_match) rs)"

definition validate_policy :: "policy_document \<Rightarrow> policy_error option" where
  "validate_policy d = check_rules 0 [] [] (pd_rules (normalize_policy_document d))"

lemma normalize_rule_idem [simp]: "normalize_rule (normalize_rule r) = normalize_rule r"
  by (simp add: normalize_rule_def)

lemma normalize_policy_idem [simp]:
  "normalize_policy_document (normalize_policy_document d) = normalize_policy_document d"
  by (simp add: normalize_policy_document_def comp_def)

definition rule_ok :: "policy_rule \<Rightarrow> bool" where
  "rule_ok r \<longleftrightarrow>
     pr_id r \<noteq> [] \<and> pm_consumer (pr_match r) \<noteq> [] \<and> pm_secret (pr_match r) \<noteq> []
     \<and> pm_scope (pr_match r) \<noteq> [] \<and> pr_decision r \<in> {''allow'', ''deny'', ''require_approval''}
     \<and> 0 \<le> pr_ttl_s r \<and> 0 \<le> pr_max_concurrent r"

definition same_key :: "policy_rule \<Rightarrow> policy_rule \<Rightarrow> bool" where
  "same_key r s \<longleftrightarrow> match_key (pr_match r) = match_key (pr_match s)"

lemma agree_Cons:
  assumes "\<And>a b. K a b = K b a"
  shows "(\<forall>a\<in>set (x # xs). \<forall>b\<in>set (x # xs). K a b \<longrightarrow> f a = f b) \<longleftrightarrow>
    (\<forall>a\<in>set xs. \<forall>b\<in>set xs. K a b \<longrightarrow> f a = f b) \<and> (\<forall>b\<in>set xs. K x b \<longrightarrow> f x = f b)"
proof -
  have "(\<forall>a\<in>set xs. K a x \<longrightarrow> f a = f x) \<longleftrightarrow> (\<forall>b\<in>set xs. K x b \<longrightarrow> f x = f b)"
    by (metis assms)
  then show ?thesis by (simp only: list.set ball_simps(5,7)) blast
qed

text \<open>What the loop accepts, for rules that are already trimmed; \<open>m\<close> holds rules seen before.\<close>

lemma check_rules_None:
  assumes "\<forall>r\<in>set rs. trim (pr_id r) = pr_id r"
    and "\<And>k e. map_of m k = Some e \<Longrightarrow> match_key (pr_match e) = k"
  shows "check_rules i ids m rs = None \<longleftrightarrow>
     (\<forall>r\<in>set rs. rule_ok r) \<and> distinct (map pr_id rs) \<and> set (map pr_id rs) \<inter> set ids = {}
     \<and> (\<forall>r\<in>set rs. \<forall>s\<in>set rs. same_key r s \<longrightarrow> pr_decision r = pr_decision s)
     \<and> (\<forall>r\<in>set rs. \<forall>e. map_of m (match_key (pr_match r)) = Some e \<longrightarrow> pr_decision e = pr_decision r)"
  using assms
proof (induction rs arbitrary: i ids m)
  case (Cons r rs)
  let ?k = "match_key (pr_match r)"
  have m': "\<And>k e. map_of (put ?k r m) k = Some e \<Longrightarrow> match_key (pr_match e) = k"
    using Cons.prems(2) by (auto split: if_splits)
  have IH: "check_rules (Suc i) (pr_id r # ids) (put ?k r m) rs = None \<longleftrightarrow>
     (\<forall>r\<in>set rs. rule_ok r) \<and> distinct (map pr_id rs) \<and> set (map pr_id rs) \<inter> set (pr_id r # ids) = {}
     \<and> (\<forall>r\<in>set rs. \<forall>s\<in>set rs. same_key r s \<longrightarrow> pr_decision r = pr_decision s)
     \<and> (\<forall>s\<in>set rs. \<forall>e. map_of (put ?k r m) (match_key (pr_match s)) = Some e \<longrightarrow> pr_decision e = pr_decision s)"
    using Cons.prems(1) by (intro Cons.IH m') auto
  have head: "check_rule i ids m r = None \<longleftrightarrow> rule_ok r \<and> pr_id r \<notin> set ids
     \<and> (\<forall>e. map_of m ?k = Some e \<longrightarrow> pr_decision e = pr_decision r)"
    using Cons.prems(1) by (auto simp: check_rule_def rule_ok_def split: option.split if_splits)
  have keys: "(\<forall>s\<in>set rs. \<forall>e. map_of (put ?k r m) (match_key (pr_match s)) = Some e \<longrightarrow> pr_decision e = pr_decision s)
     \<longleftrightarrow> (\<forall>s\<in>set rs. same_key r s \<longrightarrow> pr_decision r = pr_decision s)
        \<and> (\<forall>s\<in>set rs. \<not> same_key r s \<longrightarrow>
             (\<forall>e. map_of m (match_key (pr_match s)) = Some e \<longrightarrow> pr_decision e = pr_decision s))"
    by (auto simp: same_key_def)
  show ?case
  proof (cases "check_rule i ids m r")
    case (Some e)
    with head show ?thesis by auto
  next
    case None
    with head have ok: "rule_ok r" "pr_id r \<notin> set ids"
      "\<forall>e. map_of m ?k = Some e \<longrightarrow> pr_decision e = pr_decision r" by auto
    have pairs: "(\<forall>a\<in>set (r # rs). \<forall>b\<in>set (r # rs). same_key a b \<longrightarrow> pr_decision a = pr_decision b)
       \<longleftrightarrow> (\<forall>a\<in>set rs. \<forall>b\<in>set rs. same_key a b \<longrightarrow> pr_decision a = pr_decision b)
          \<and> (\<forall>b\<in>set rs. same_key r b \<longrightarrow> pr_decision r = pr_decision b)"
      by (rule agree_Cons) (simp add: same_key_def eq_commute)
    have seen: "(\<forall>b\<in>set rs. same_key r b \<longrightarrow> pr_decision r = pr_decision b) \<Longrightarrow>
       (\<forall>s\<in>set rs. \<forall>e. map_of m (match_key (pr_match s)) = Some e \<longrightarrow> pr_decision e = pr_decision s)
       \<longleftrightarrow> (\<forall>s\<in>set rs. \<not> same_key r s \<longrightarrow>
             (\<forall>e. map_of m (match_key (pr_match s)) = Some e \<longrightarrow> pr_decision e = pr_decision s))"
      using ok(3) unfolding same_key_def by metis
    have ids: "distinct (map pr_id (r # rs)) \<and> set (map pr_id (r # rs)) \<inter> set ids = {}
       \<longleftrightarrow> distinct (map pr_id rs) \<and> set (map pr_id rs) \<inter> set (pr_id r # ids) = {}"
      using ok(2) by auto
    have "check_rules i ids m (r # rs) = None \<longleftrightarrow>
      check_rules (Suc i) (pr_id r # ids) (put ?k r m) rs = None" by (simp add: None)
    also note IH
    finally have unfolded: "check_rules i ids m (r # rs) = None \<longleftrightarrow> (\<forall>r\<in>set rs. rule_ok r) \<and> distinct (map pr_id rs) \<and> set (map pr_id rs) \<inter> set (pr_id r # ids) = {}
     \<and> (\<forall>r\<in>set rs. \<forall>s\<in>set rs. same_key r s \<longrightarrow> pr_decision r = pr_decision s)
     \<and> (\<forall>s\<in>set rs. \<forall>e. map_of (put ?k r m) (match_key (pr_match s)) = Some e \<longrightarrow> pr_decision e = pr_decision s)" .
    have all_ok: "(\<forall>x\<in>set (r # rs). rule_ok x) \<longleftrightarrow> (\<forall>x\<in>set rs. rule_ok x)"
      using ok(1) by simp
    have all_seen: "(\<forall>s\<in>set (r # rs). \<forall>e. map_of m (match_key (pr_match s)) = Some e \<longrightarrow> pr_decision e = pr_decision s)
      \<longleftrightarrow> (\<forall>s\<in>set rs. \<forall>e. map_of m (match_key (pr_match s)) = Some e \<longrightarrow> pr_decision e = pr_decision s)"
      using ok(3) by simp
    show ?thesis
      unfolding unfolded pairs keys all_ok all_seen using ids seen by blast
  qed
qed simp

section \<open>Properties\<close>

text \<open>A document is accepted exactly when, after trimming, every rule is complete with a known
  decision and non-negative limits, rule ids are distinct, and rules for the same consumer,
  secret and scope agree.\<close>

theorem validate_policy_iff:
  "validate_policy d = None \<longleftrightarrow>
    (let rs = pd_rules (normalize_policy_document d) in
     (\<forall>r\<in>set rs. rule_ok r) \<and> distinct (map pr_id rs)
     \<and> (\<forall>r\<in>set rs. \<forall>s\<in>set rs. same_key r s \<longrightarrow> pr_decision r = pr_decision s))"
proof -
  let ?rs = "pd_rules (normalize_policy_document d)"
  have "\<forall>r\<in>set ?rs. trim (pr_id r) = pr_id r"
    by (auto simp: normalize_policy_document_def normalize_rule_def)
  from check_rules_None [OF this, of "[]" 0 "[]"] show ?thesis
    by (simp add: validate_policy_def Let_def)
qed

definition sample_rule :: policy_rule where
  "sample_rule = \<lparr>pr_id = ''r1'', pr_match = \<lparr>pm_consumer = ''ci'', pm_secret = ''db'', pm_scope = ''read''\<rparr>,
     pr_decision = ''allow'', pr_ttl_s = 0, pr_max_concurrent = 0, pr_priority = 0\<rparr>"

definition sample_policy :: policy_document where
  "sample_policy = \<lparr>pd_version = '''', pd_rules = [sample_rule], pd_updated_at = 0, pd_updated_by = ''''\<rparr>"

theorem validate_policy_iff_witness:
  "validate_policy sample_policy = None
   \<and> validate_policy (sample_policy\<lparr>pd_rules := [sample_rule, sample_rule\<lparr>pr_id := ''r2'', pr_decision := ''deny''\<rparr>]\<rparr>) \<noteq> None"
proof -
  have "validate_policy sample_policy = None"
    unfolding validate_policy_iff
    by (simp add: sample_policy_def sample_rule_def rule_ok_def normalize_policy_document_def normalize_rule_def)
  moreover have "validate_policy (sample_policy\<lparr>pd_rules := [sample_rule, sample_rule\<lparr>pr_id := ''r2'', pr_decision := ''deny''\<rparr>]\<rparr>) \<noteq> None"
    unfolding validate_policy_iff
    by (simp add: sample_policy_def sample_rule_def normalize_policy_document_def normalize_rule_def
        same_key_def match_key_def)
  ultimately show ?thesis by simp
qed

end
