(* ===== verification/Vault.thy ===== *)
theory Vault
  imports Config Policy
begin

text \<open>
  The data of \<^verbatim>\<open>internal/store\<close> (\<^verbatim>\<open>store.go\<close>, \<^verbatim>\<open>grants.go\<close>, \<^verbatim>\<open>binding.go\<close>) and the two
  operations every mutation is built from: reading the encrypted state from the envelope and
  writing it back. A handle's memory and the state in the file are two values: operations
  change the memory first, and \<open>persist\<close> replaces the file by it.
\<close>

section \<open>Items, bindings and consumers\<close>

record item_metadata =
  im_notes :: string
  im_tags :: "string list"
  im_project_bindings :: "string list"
  im_human_label :: string
  im_policy :: string

record item =
  it_classification :: string
  it_id :: string
  it_name :: string
  it_kind :: string
  it_value :: string
  it_metadata :: item_metadata
  it_created_at :: time
  it_updated_at :: time
  it_deleted_at :: "time option"

record binding =
  bd_id :: string
  bd_canonical_root :: string
  bd_aliases :: "string gomap"
  bd_default_capture_policy :: string
  bd_hook_installed :: bool

record app_binding =
  ab_secret_name :: string
  ab_delivery :: string
  ab_target :: string

record consumer =
  cn_name :: string
  cn_project_root :: string
  cn_created_at :: time
  cn_updated_at :: time

record app_consumer = consumer +
  ac_command :: "string list"
  ac_literal_env :: "string gomap"
  ac_bindings :: "app_binding list"
  ac_dotenv_env :: string
  ac_launcher_path :: string

record agent_consumer = consumer +
  gc_agent_id :: string
  gc_config_path :: string

section \<open>Grants\<close>

text \<open>The five grant structs share their id, scope and three optional instants; the shared part
  is a record that the five extend.\<close>

record grant =
  g_id :: string
  g_scope :: string
  g_expires_at :: "time option"
  g_revoked_at :: "time option"
  g_used_at :: "time option"

record project_lease = grant +
  pl_binding_id :: string
  pl_session_token :: string

record secret_grant = grant +
  sg_binding_id :: string
  sg_item_name :: string
  sg_session_token :: string
  sg_relaxed_by_window :: bool

record convenience_grant = grant +
  cg_project_binding_id :: string
  cg_lease_id :: string
  cg_destination_path_hash :: string
  cg_resolved_set_hash :: string
  cg_granted_by :: string

record plaintext_grant = grant +
  pg_session_token :: string
  pg_item_name :: string
  pg_action :: string
  pg_granted_by :: string

record mutation_grant = grant +
  mg_binding_id :: string
  mg_item_name :: string
  mg_session_token :: string
  mg_action :: string
  mg_granted_by :: string

record manifest_signature =
  ms_command :: string
  ms_refs :: string
  ms_delivery :: string
  ms_outputs :: string

record manifest_review =
  mr_project_root :: string
  mr_target_name :: string
  mr_manifest_hash :: string
  mr_signature :: manifest_signature
  mr_reviewed_at :: time

section \<open>The persisted state\<close>

record vault =
  v_items :: "item gomap"
  v_bindings :: "binding gomap"
  v_leases :: "project_lease gomap"
  v_secrets :: "secret_grant gomap"
  v_conveniences :: "convenience_grant gomap"
  v_plaintexts :: "plaintext_grant gomap"
  v_mutations :: "mutation_grant gomap"
  v_apps :: "app_consumer gomap"
  v_agents :: "agent_consumer gomap"
  v_reviews :: "manifest_review gomap"
  v_policy :: policy_document
  v_config :: config_document

datatype detail = DStr string | DInt int | DBool bool | DStrs "string list"

record audit_event =
  ae_type :: string
  ae_actor :: string
  ae_details :: "(string \<times> detail) list"

text \<open>A handle's memory, the state sealed in the vault file (\<open>None\<close> before \<open>Init\<close>) and the
  events handed to the audit log, oldest first.\<close>

record sys =
  mem :: vault
  disk :: "vault option"
  trail :: "audit_event list"

text \<open>What the file system does during one operation: whether the read of a refresh and the
  read of \<open>persist\<close> succeed, and how the write ends. \<open>WrittenUnsynced\<close> is the error return after
  the rename (the directory sync failed): the new state is in place although the caller gets an
  error.\<close>

datatype write_outcome = Written | NotWritten | WrittenUnsynced

record io =
  io_refresh_ok :: bool
  io_read_ok :: bool
  io_write :: write_outcome

definition io_ok :: io where
  "io_ok = \<lparr>io_refresh_ok = True, io_read_ok = True, io_write = Written\<rparr>"

datatype store_error =
    VaultNotInitialized | ReadFailed | WriteFailed | RandomFailed
  | ItemNotFound | NameRequired | UnsupportedKind string | UnknownClassification string
  | EmptyBatch | MixedBatch
  | WindowNeedsTtl | UnsupportedScope string
  | SessionRequired | BindingRequired | UnsupportedAction string | OnceOnly | TtlTooLong
  | LeaseRequired | MutationGrantRequired
  | PolicyVersionConflict string string | PolicyInvalid policy_error
  | ConfigError config_error
  | CommandRequired | AgentIdRequired | ConfigPathRequired | ConsumerNotFound
  | ProjectPathError | ManifestError string | BindingConflict string string string
  | MissingBindingItem string string string
  | ReferenceNotFound | ReferenceNotExposed string string

text \<open>\<open>readState\<close>: what the sealed bytes decode to; policy and configuration are normalised.\<close>

definition read_state :: "vault \<Rightarrow> vault" where
  "read_state v =
     v\<lparr>v_policy := normalize_policy_document (v_policy v),
       v_config := normalize_config_document (json_config (v_config v))\<rparr>"

definition refresh_state :: "io \<Rightarrow> sys \<Rightarrow> store_error option \<times> sys" where
  "refresh_state io s =
     (case disk s of
        None \<Rightarrow> (Some VaultNotInitialized, s)
      | Some d \<Rightarrow> if io_refresh_ok io then (None, s\<lparr>mem := read_state d\<rparr>) else (Some ReadFailed, s))"

definition persist :: "io \<Rightarrow> sys \<Rightarrow> store_error option \<times> sys" where
  "persist io s =
     (case disk s of
        None \<Rightarrow> (Some VaultNotInitialized, s)
      | Some _ \<Rightarrow>
          if \<not> io_read_ok io then (Some ReadFailed, s)
          else (case io_write io of
              Written \<Rightarrow> (None, s\<lparr>disk := Some (mem s)\<rparr>)
            | NotWritten \<Rightarrow> (Some WriteFailed, s)
            | WrittenUnsynced \<Rightarrow> (Some WriteFailed, s\<lparr>disk := Some (mem s)\<rparr>)))"

definition append_audit :: "string \<Rightarrow> string \<Rightarrow> (string \<times> detail) list \<Rightarrow> sys \<Rightarrow> sys" where
  "append_audit type actor details s =
     s\<lparr>trail := trail s @ [\<lparr>ae_type = type, ae_actor = actor, ae_details = details\<rparr>]\<rparr>"

text \<open>The end of most mutations: write the memory back and, if that succeeded, log the event.\<close>

definition persist_and_log :: "io \<Rightarrow> string \<Rightarrow> (string \<times> detail) list \<Rightarrow> sys \<Rightarrow> store_error option \<times> sys" where
  "persist_and_log io type details s =
     (case persist io s of
        (None, s') \<Rightarrow> (None, append_audit type ''user'' details s')
      | (Some e, s') \<Rightarrow> (Some e, s'))"

section \<open>Facts\<close>

lemma read_state_fields [simp]:
  "v_items (read_state v) = v_items v" "v_bindings (read_state v) = v_bindings v"
  "v_leases (read_state v) = v_leases v" "v_secrets (read_state v) = v_secrets v"
  "v_conveniences (read_state v) = v_conveniences v" "v_plaintexts (read_state v) = v_plaintexts v"
  "v_mutations (read_state v) = v_mutations v" "v_apps (read_state v) = v_apps v"
  "v_agents (read_state v) = v_agents v" "v_reviews (read_state v) = v_reviews v"
  by (simp_all add: read_state_def)

lemma read_state_idem:
  "v_policy (read_state (read_state v)) = v_policy (read_state v)"
  "v_config (read_state (read_state v)) = v_config (read_state v)"
  by (simp_all add: read_state_def normalize_ok doc_ok_normalize)

lemma append_audit_simps [simp]:
  "mem (append_audit ty ac de s) = mem s" "disk (append_audit ty ac de s) = disk s"
  "trail (append_audit ty ac de s) = trail s @ [\<lparr>ae_type = ty, ae_actor = ac, ae_details = de\<rparr>]"
  by (simp_all add: append_audit_def)

lemma persist_mem [simp]: "mem (snd (persist io s)) = mem s" "trail (snd (persist io s)) = trail s"
  by (simp_all add: persist_def split: option.split write_outcome.split)

lemma persist_disk: "disk (snd (persist io s)) = disk s \<or> disk (snd (persist io s)) = Some (mem s)"
  by (simp add: persist_def split: option.split write_outcome.split)

lemma persist_ok: "fst (persist io s) = None \<Longrightarrow> disk (snd (persist io s)) = Some (mem s)"
  by (auto simp: persist_def split: option.splits write_outcome.splits if_splits)

lemma persist_eqE:
  assumes "persist io s = (e, s')"
  shows "mem s' = mem s" "trail s' = trail s" "disk s' = disk s \<or> disk s' = Some (mem s)"
    "e = None \<Longrightarrow> disk s' = Some (mem s)"
  using persist_mem [of io s] persist_disk [of io s] persist_ok [of io s] assms by simp_all

lemma persist_and_log_mem [simp]: "mem (snd (persist_and_log io ty de s)) = mem s"
  by (simp add: persist_and_log_def persist_eqE split: prod.split option.split)

lemma persist_and_log_disk:
  "disk (snd (persist_and_log io ty de s)) = disk s \<or> disk (snd (persist_and_log io ty de s)) = Some (mem s)"
  using persist_disk [of io s] by (auto simp: persist_and_log_def split: prod.split option.split)

lemma persist_and_log_ok:
  "fst (persist_and_log io ty de s) = None \<Longrightarrow> disk (snd (persist_and_log io ty de s)) = Some (mem s)"
  using persist_ok [of io s] by (auto simp: persist_and_log_def split: prod.splits option.splits)

lemma refresh_eqE:
  assumes "refresh_state io s = (e, s')"
  shows "disk s' = disk s" "trail s' = trail s"
    "e = None \<Longrightarrow> \<exists>d. disk s = Some d \<and> mem s' = read_state d"
    "e \<noteq> None \<Longrightarrow> s' = s"
  using assms by (auto simp: refresh_state_def split: option.splits if_splits)

definition empty_vault :: vault where
  "empty_vault = \<lparr>v_items = [], v_bindings = [], v_leases = [], v_secrets = [], v_conveniences = [],
     v_plaintexts = [], v_mutations = [], v_apps = [], v_agents = [], v_reviews = [],
     v_policy = \<lparr>pd_version = [], pd_rules = [], pd_updated_at = zero_time, pd_updated_by = []\<rparr>, v_config = []\<rparr>"

lemma persist_and_log_eqE:
  assumes "persist_and_log io ty de s = (e, s')"
  shows "mem s' = mem s" "disk s' = disk s \<or> disk s' = Some (mem s)"
    "e = None \<Longrightarrow> disk s' = Some (mem s)"
  using persist_and_log_mem [of io ty de s] persist_and_log_disk [of io ty de s]
    persist_and_log_ok [of io ty de s] assms by simp_all

lemma persist_and_log_okD:
  "persist_and_log io ty de s = (None, s') \<Longrightarrow> mem s' = mem s \<and> disk s' = Some (mem s)"
  using persist_and_log_eqE [of io ty de s None s'] by simp

end
