(* ===== verification/Grants.thy ===== *)
theory Grants
  imports Vault
begin

text \<open>
  Project leases and grants: \<^verbatim>\<open>internal/store/grants.go\<close>, \<^verbatim>\<open>grant_authorize.go\<close>,
  \<^verbatim>\<open>grant_mutations.go\<close>, \<^verbatim>\<open>grant_diagnostics.go\<close> and \<^verbatim>\<open>grant_snapshots.go\<close>. SHA-256 in
  hexadecimal is the parameter \<open>sha\<close>. An operation that reads the clock several times takes
  every reading as an argument of its own.
\<close>

section \<open>Activity and keys\<close>

definition grant_is_active :: "time \<Rightarrow> 'a grant_scheme \<Rightarrow> bool" where
  "grant_is_active now g =
     (if g_revoked_at g \<noteq> None then False
      else if g_scope g = ''once'' \<and> g_used_at g \<noteq> None then False
      else if (case g_expires_at g of None \<Rightarrow> False | Some e \<Rightarrow> e < now) then False
      else True)"

definition compute_expiry :: "time \<Rightarrow> string \<Rightarrow> duration \<Rightarrow> store_error + time option" where
  "compute_expiry now scope ttl =
     (if scope = ''once'' \<or> scope = ''session'' then Inr None
      else if scope = ''window'' then (if ttl \<le> 0 then Inl WindowNeedsTtl else Inr (Some (now + ttl)))
      else Inl (UnsupportedScope scope))"

definition lease_key :: "string \<Rightarrow> string \<Rightarrow> string" where
  "lease_key binding_id session_token = binding_id @ ''|'' @ session_token"

definition secret_grant_key :: "string \<Rightarrow> string \<Rightarrow> string \<Rightarrow> string" where
  "secret_grant_key binding_id session_token item_name =
     binding_id @ ''|'' @ session_token @ ''|'' @ item_name"

definition hash_string :: "(string \<Rightarrow> string) \<Rightarrow> string \<Rightarrow> string" where
  "hash_string sha value = sha (trim value)"

definition hash_resolved_set :: "(string \<Rightarrow> string) \<Rightarrow> string list \<Rightarrow> string" where
  "hash_resolved_set sha values = hash_string sha (join [CHR 0x0A] (sort_strings values))"

definition convenience_grant_key :: "(string \<Rightarrow> string) \<Rightarrow> string \<Rightarrow> string \<Rightarrow> string list \<Rightarrow> string" where
  "convenience_grant_key sha binding_id path resolved =
     binding_id @ ''|'' @ hash_string sha path @ ''|'' @ hash_resolved_set sha resolved"

definition plaintext_grant_key :: "string \<Rightarrow> string \<Rightarrow> string \<Rightarrow> string" where
  "plaintext_grant_key session_token item_name action =
     session_token @ ''|'' @ item_name @ ''|'' @ action"

definition mutation_grant_key :: "string \<Rightarrow> string \<Rightarrow> string \<Rightarrow> string \<Rightarrow> string" where
  "mutation_grant_key binding_id session_token item_name action =
     binding_id @ ''|'' @ session_token @ ''|'' @ item_name @ ''|'' @ action"

definition entry_active :: "time \<Rightarrow> ('a grant_scheme) gomap \<Rightarrow> string \<Rightarrow> bool" where
  "entry_active now m key = (case map_of m key of None \<Rightarrow> False | Some g \<Rightarrow> grant_is_active now g)"

definition project_lease_active :: "time \<Rightarrow> string \<Rightarrow> string \<Rightarrow> vault \<Rightarrow> bool" where
  "project_lease_active now b t v = entry_active now (v_leases v) (lease_key b t)"

definition secret_grant_active :: "time \<Rightarrow> string \<Rightarrow> string \<Rightarrow> string \<Rightarrow> vault \<Rightarrow> bool" where
  "secret_grant_active now b t i v = entry_active now (v_secrets v) (secret_grant_key b t i)"

definition secret_grant_window_active :: "time \<Rightarrow> string \<Rightarrow> string \<Rightarrow> string \<Rightarrow> vault \<Rightarrow> bool" where
  "secret_grant_window_active now b t i v =
     (case map_of (v_secrets v) (secret_grant_key b t i) of
        None \<Rightarrow> False
      | Some g \<Rightarrow> if \<not> sg_relaxed_by_window g then False else grant_is_active now g)"

definition convenience_grant_active ::
    "(string \<Rightarrow> string) \<Rightarrow> time \<Rightarrow> string \<Rightarrow> string \<Rightarrow> string list \<Rightarrow> vault \<Rightarrow> bool" where
  "convenience_grant_active sha now b path resolved v =
     entry_active now (v_conveniences v) (convenience_grant_key sha b path resolved)"

definition mutation_grant_active :: "(nat \<Rightarrow> time) \<Rightarrow> string \<Rightarrow> string \<Rightarrow> string \<Rightarrow> string \<Rightarrow> vault \<Rightarrow> bool" where
  "mutation_grant_active clock b t i a v =
     (case map_of (v_mutations v) (mutation_grant_key b t i a) of
        None \<Rightarrow> False
      | Some g \<Rightarrow> if \<not> grant_is_active (clock 0) g then False else project_lease_active (clock 1) b t v)"

definition plaintext_grant_active :: "time \<Rightarrow> string \<Rightarrow> string \<Rightarrow> string \<Rightarrow> vault \<Rightarrow> bool" where
  "plaintext_grant_active now t i a v = entry_active now (v_plaintexts v) (plaintext_grant_key t i a)"

section \<open>Authorisation\<close>

record access_request =
  ar_operation :: string
  ar_binding_id :: string
  ar_session_token :: string
  ar_item_name :: string
  ar_policy :: string
  ar_destination_path :: string
  ar_aliases :: "string list"
  ar_creating_new :: bool

record access_decision =
  ad_allowed :: bool
  ad_requires_prompt :: bool
  ad_reason :: string
  ad_requirement :: string

definition prompt :: "string \<Rightarrow> string \<Rightarrow> access_decision" where
  "prompt reason requirement =
     \<lparr>ad_allowed = False, ad_requires_prompt = True, ad_reason = reason, ad_requirement = requirement\<rparr>"

definition allow :: "string \<Rightarrow> access_decision" where
  "allow reason = \<lparr>ad_allowed = True, ad_requires_prompt = False, ad_reason = reason, ad_requirement = ''''\<rparr>"

definition required_action :: "access_decision \<Rightarrow> string" where
  "required_action d =
     (if ad_requirement d \<noteq> '''' then ad_requirement d
      else if ad_reason d = ''project_lease_required'' then ''project_lease''
      else if ad_reason d = ''project_and_convenience_approval_required'' then ''project_and_convenience''
      else if ad_reason d = ''convenience_approval_required'' then ''convenience''
      else if ad_reason d \<in> {''secret_session_grant_required'', ''access_secret_prompt_required''} then ''secret_grant''
      else if ad_reason d = ''write_grant_required'' then ''write_grant''
      else if ad_reason d \<in> {''unsupported_operation'', ''unknown_policy''} then ''unsupported''
      else '''')"

text \<open>The steps of \<open>authorizeCurrent\<close>; \<open>clock i\<close> is its reading number \<open>i\<close> of the clock.\<close>

definition write_env_gate ::
    "(string \<Rightarrow> string) \<Rightarrow> (nat \<Rightarrow> time) \<Rightarrow> access_request \<Rightarrow> vault \<Rightarrow> access_decision option" where
  "write_env_gate sha clock req v =
     (if ar_operation req = ''write-env'' \<and> (trim (ar_destination_path req) \<noteq> [] \<or> ar_aliases req \<noteq> []) then
        if \<not> project_lease_active (clock 0) (ar_binding_id req) (ar_session_token req) v
          then Some (prompt ''project_and_convenience_approval_required'' ''project_and_convenience'')
        else if \<not> convenience_grant_active sha (clock 1) (ar_binding_id req) (ar_destination_path req) (ar_aliases req) v
          then Some (prompt ''convenience_approval_required'' ''convenience'')
        else None
      else None)"

definition authorize_secret :: "(nat \<Rightarrow> time) \<Rightarrow> access_request \<Rightarrow> string \<Rightarrow> vault \<Rightarrow> access_decision" where
  "authorize_secret clock req policy v =
     (if \<not> project_lease_active (clock 2) (ar_binding_id req) (ar_session_token req) v
        then prompt ''project_lease_required'' ''project_lease''
      else if policy = ''auto'' then allow ''auto_secret_allowed''
      else if policy = ''session'' then
        (if secret_grant_active (clock 3) (ar_binding_id req) (ar_session_token req) (ar_item_name req) v
           then allow ''session_secret_allowed''
         else prompt ''secret_session_grant_required'' ''secret_grant'')
      else if policy = ''access'' then
        (if secret_grant_window_active (clock 3) (ar_binding_id req) (ar_session_token req) (ar_item_name req) v
           then allow ''access_window_override_allowed''
         else if secret_grant_active (clock 4) (ar_binding_id req) (ar_session_token req) (ar_item_name req) v
           then allow ''access_secret_allowed''
         else prompt ''access_secret_prompt_required'' ''secret_grant'')
      else prompt ''unknown_policy'' ''unsupported'')"

definition authorize_current ::
    "(string \<Rightarrow> string) \<Rightarrow> (nat \<Rightarrow> time) \<Rightarrow> access_request \<Rightarrow> vault \<Rightarrow> access_decision" where
  "authorize_current sha clock req v =
     (let policy = (if ar_policy req = '''' then ''auto'' else ar_policy req) in
      if ar_operation req = ''list'' then
        (if \<not> project_lease_active (clock 0) (ar_binding_id req) (ar_session_token req) v
           then prompt ''project_lease_required'' ''project_lease''
         else allow ''scoped_listing_allowed'')
      else if ar_operation req = ''capture'' \<and> ar_creating_new req then
        (if \<not> project_lease_active (clock 0) (ar_binding_id req) (ar_session_token req) v
           then prompt ''project_lease_required'' ''project_lease''
         else prompt ''write_grant_required'' ''write_grant'')
      else (case write_env_gate sha clock req v of
          Some d \<Rightarrow> d
        | None \<Rightarrow>
            if ar_operation req \<in> {''run'', ''inject'', ''write-env'', ''capture''}
              then authorize_secret clock req policy v
            else prompt ''unsupported_operation'' ''unsupported''))"

section \<open>Consuming once grants\<close>

definition use_grant :: "time \<Rightarrow> 'a grant_scheme \<Rightarrow> 'a grant_scheme" where
  "use_grant now g = g\<lparr>g_used_at := Some now\<rparr>"

definition revoke_grant :: "time \<Rightarrow> 'a grant_scheme \<Rightarrow> 'a grant_scheme" where
  "revoke_grant now g = g\<lparr>g_revoked_at := Some now\<rparr>"

definition consume_once :: "string \<Rightarrow> time \<Rightarrow> ('a grant_scheme) gomap \<Rightarrow> ('a grant_scheme) gomap option" where
  "consume_once key now m =
     (case map_of m key of
        None \<Rightarrow> None
      | Some g \<Rightarrow> if g_scope g \<noteq> ''once'' \<or> \<not> grant_is_active now g then None
                 else Some (put key (use_grant now g) m))"

definition consume_project_lease_for_request :: "access_request \<Rightarrow> time \<Rightarrow> vault \<Rightarrow> bool \<times> vault" where
  "consume_project_lease_for_request req now v =
     (case consume_once (lease_key (ar_binding_id req) (ar_session_token req)) now (v_leases v) of
        None \<Rightarrow> (False, v) | Some m \<Rightarrow> (True, v\<lparr>v_leases := m\<rparr>))"

definition consume_secret_grant_for_request :: "access_request \<Rightarrow> time \<Rightarrow> vault \<Rightarrow> bool \<times> vault" where
  "consume_secret_grant_for_request req now v =
     (if trim (ar_item_name req) = [] then (False, v)
      else (case consume_once (secret_grant_key (ar_binding_id req) (ar_session_token req) (ar_item_name req))
                   now (v_secrets v) of
          None \<Rightarrow> (False, v) | Some m \<Rightarrow> (True, v\<lparr>v_secrets := m\<rparr>)))"

definition consume_convenience_grant_for_request ::
    "(string \<Rightarrow> string) \<Rightarrow> access_request \<Rightarrow> time \<Rightarrow> vault \<Rightarrow> bool \<times> vault" where
  "consume_convenience_grant_for_request sha req now v =
     (case consume_once (convenience_grant_key sha (ar_binding_id req) (ar_destination_path req) (ar_aliases req))
             now (v_conveniences v) of
        None \<Rightarrow> (False, v) | Some m \<Rightarrow> (True, v\<lparr>v_conveniences := m\<rparr>))"

definition consume_once_grants ::
    "(string \<Rightarrow> string) \<Rightarrow> access_request \<Rightarrow> time \<Rightarrow> vault \<Rightarrow> bool \<times> vault" where
  "consume_once_grants sha req now v =
     (let (c1, v1) = (if ar_operation req \<in> {''list'', ''run'', ''inject'', ''write-env'', ''capture''}
                      then consume_project_lease_for_request req now v else (False, v));
          (c2, v2) = (if ar_operation req \<in> {''run'', ''inject'', ''write-env'', ''capture''}
                      then consume_secret_grant_for_request req now v1 else (False, v1));
          (c3, v3) = (if ar_operation req = ''write-env''
                      then consume_convenience_grant_for_request sha req now v2 else (False, v2))
      in (c1 \<or> c2 \<or> c3, v3))"

fun consume_requests ::
    "(string \<Rightarrow> string) \<Rightarrow> (access_request \<times> time) list \<Rightarrow> vault \<Rightarrow> access_request list \<times> vault" where
  "consume_requests sha [] v = ([], v)"
| "consume_requests sha ((req, now) # rest) v =
     (let (c, v') = consume_once_grants sha req now v;
          (consumed, v'') = consume_requests sha rest v'
      in (if c then req # consumed else consumed, v''))"

definition consume_event :: "access_request \<Rightarrow> sys \<Rightarrow> sys" where
  "consume_event req s =
     append_audit ''grant.authorize.consume'' ''user''
       [(''binding_id'', DStr (ar_binding_id req)), (''operation'', DStr (ar_operation req)),
        (''item'', DStr (ar_item_name req))] s"

text \<open>\<open>AuthorizeBatchAndConsume\<close>: every request of the batch comes with the clock readings of its
  authorisation and of its consumption.\<close>

type_synonym timed_request = "access_request \<times> (nat \<Rightarrow> time) \<times> time"

definition mixed_batch :: "timed_request list \<Rightarrow> bool" where
  "mixed_batch batch =
     (\<exists>r\<in>set batch. ar_binding_id (fst r) \<noteq> ar_binding_id (fst (hd batch))
        \<or> ar_session_token (fst r) \<noteq> ar_session_token (fst (hd batch)))"

definition authorize_batch_and_consume ::
    "(string \<Rightarrow> string) \<Rightarrow> io \<Rightarrow> timed_request list \<Rightarrow> sys \<Rightarrow> (store_error + access_decision list) \<times> sys" where
  "authorize_batch_and_consume sha io batch s =
     (if batch = [] then (Inl EmptyBatch, s)
      else if mixed_batch batch then (Inl MixedBatch, s)
      else (case refresh_state io s of
          (Some e, s1) \<Rightarrow> (Inl e, s1)
        | (None, s1) \<Rightarrow>
            let decisions = map (\<lambda>(req, clock, now). authorize_current sha clock req (mem s1)) batch in
            if \<not> list_all ad_allowed decisions then (Inr decisions, s1)
            else
              let (consumed, v) = consume_requests sha (map (\<lambda>(req, clock, now). (req, now)) batch) (mem s1);
                  s2 = s1\<lparr>mem := v\<rparr>
              in if consumed = [] then (Inr decisions, s2)
                 else (case persist io s2 of
                     (Some e, s3) \<Rightarrow> (Inl e, s3)
                   | (None, s3) \<Rightarrow> (Inr decisions, fold consume_event consumed s3))))"

definition authorize_and_consume ::
    "(string \<Rightarrow> string) \<Rightarrow> io \<Rightarrow> timed_request \<Rightarrow> sys \<Rightarrow> (store_error + access_decision) \<times> sys" where
  "authorize_and_consume sha io req s =
     (case authorize_batch_and_consume sha io [req] s of
        (Inl e, s') \<Rightarrow> (Inl e, s') | (Inr ds, s') \<Rightarrow> (Inr (hd ds), s'))"

text \<open>A missing map entry reads as the zero grant, whose scope is empty.\<close>

definition once_used :: "('a grant_scheme) gomap \<Rightarrow> string \<Rightarrow> bool" where
  "once_used m key = (case map_of m key of None \<Rightarrow> False | Some g \<Rightarrow> g_scope g = ''once'' \<and> g_used_at g \<noteq> None)"

definition once_grant_consumed :: "(string \<Rightarrow> string) \<Rightarrow> access_request \<Rightarrow> string \<Rightarrow> vault \<Rightarrow> bool" where
  "once_grant_consumed sha req requirement v =
     (if requirement \<in> {''project_lease'', ''project_and_convenience''} then
        once_used (v_leases v) (lease_key (ar_binding_id req) (ar_session_token req))
      else if requirement = ''secret_grant'' then
        once_used (v_secrets v) (secret_grant_key (ar_binding_id req) (ar_session_token req) (ar_item_name req))
      else if requirement = ''convenience'' then
        once_used (v_conveniences v)
          (convenience_grant_key sha (ar_binding_id req) (ar_destination_path req) (ar_aliases req))
      else False)"

section \<open>Granting\<close>

text \<open>The result of an operation whose final step is \<open>persist\<close>.\<close>

definition done_with :: "'a \<Rightarrow> store_error option \<times> sys \<Rightarrow> (store_error + 'a) \<times> sys" where
  "done_with a r = (case r of (None, s) \<Rightarrow> (Inr a, s) | (Some e, s) \<Rightarrow> (Inl e, s))"

text \<open>The entry a once grant is answered with instead of minting a new one.\<close>

definition existing_grant :: "time \<Rightarrow> string \<Rightarrow> ('a grant_scheme) gomap \<Rightarrow> 'a grant_scheme option" where
  "existing_grant now key m =
     (case map_of m key of
        None \<Rightarrow> None
      | Some g \<Rightarrow> if g_scope g = ''once'' \<or> grant_is_active now g then Some g else None)"

definition grant_project_lease ::
    "io \<Rightarrow> (nat \<Rightarrow> time) \<Rightarrow> string option \<Rightarrow> string \<Rightarrow> string \<Rightarrow> string \<Rightarrow> duration \<Rightarrow> sys
      \<Rightarrow> (store_error + project_lease) \<times> sys" where
  "grant_project_lease io clock rnd b t scope ttl s =
     (case compute_expiry (clock 0) scope ttl of
        Inl e \<Rightarrow> (Inl e, s)
      | Inr expires \<Rightarrow>
     (case rnd of
        None \<Rightarrow> (Inl RandomFailed, s)
      | Some gid \<Rightarrow>
          let lease = \<lparr>g_id = gid, g_scope = scope, g_expires_at = expires, g_revoked_at = None,
                       g_used_at = None, pl_binding_id = b, pl_session_token = t\<rparr>;
              key = lease_key b t;
              log = [(''binding_id'', DStr b), (''scope'', DStr scope)];
              store = (\<lambda>s. done_with lease
                (persist_and_log io ''grant.project'' log (s\<lparr>mem := (mem s)\<lparr>v_leases := put key lease (v_leases (mem s))\<rparr>\<rparr>)))
          in if scope = ''once'' then
               (case refresh_state io s of
                  (Some e, s1) \<Rightarrow> (Inl e, s1)
                | (None, s1) \<Rightarrow>
                    (case existing_grant (clock 1) key (v_leases (mem s1)) of
                       Some g \<Rightarrow> (Inr g, s1) | None \<Rightarrow> store s1))
             else store s))"

definition grant_secret_use ::
    "io \<Rightarrow> (nat \<Rightarrow> time) \<Rightarrow> string option \<Rightarrow> string \<Rightarrow> string \<Rightarrow> string \<Rightarrow> string \<Rightarrow> duration \<Rightarrow> bool \<Rightarrow> sys
      \<Rightarrow> (store_error + secret_grant) \<times> sys" where
  "grant_secret_use io clock rnd b t item scope ttl relaxed s =
     (case compute_expiry (clock 0) scope ttl of
        Inl e \<Rightarrow> (Inl e, s)
      | Inr expires \<Rightarrow>
     (case rnd of
        None \<Rightarrow> (Inl RandomFailed, s)
      | Some gid \<Rightarrow>
          let grant = \<lparr>g_id = gid, g_scope = scope, g_expires_at = expires, g_revoked_at = None,
                       g_used_at = None, sg_binding_id = b, sg_item_name = item, sg_session_token = t,
                       sg_relaxed_by_window = relaxed\<rparr>;
              key = secret_grant_key b t item;
              log = [(''binding_id'', DStr b), (''item'', DStr item), (''scope'', DStr scope), (''relaxed'', DBool relaxed)];
              store = (\<lambda>s. done_with grant
                (persist_and_log io ''grant.secret'' log (s\<lparr>mem := (mem s)\<lparr>v_secrets := put key grant (v_secrets (mem s))\<rparr>\<rparr>)))
          in if scope = ''once'' then
               (case refresh_state io s of
                  (Some e, s1) \<Rightarrow> (Inl e, s1)
                | (None, s1) \<Rightarrow>
                    (case existing_grant (clock 1) key (v_secrets (mem s1)) of
                       Some g \<Rightarrow> (Inr g, s1) | None \<Rightarrow> store s1))
             else store s))"

definition grant_convenience ::
    "(string \<Rightarrow> string) \<Rightarrow> io \<Rightarrow> (nat \<Rightarrow> time) \<Rightarrow> string option \<Rightarrow> string \<Rightarrow> string \<Rightarrow> string \<Rightarrow> string list \<Rightarrow> string
      \<Rightarrow> string \<Rightarrow> duration \<Rightarrow> sys \<Rightarrow> (store_error + convenience_grant) \<times> sys" where
  "grant_convenience sha io clock rnd b t path resolved by_whom scope ttl s =
     (case compute_expiry (clock 0) scope ttl of
        Inl e \<Rightarrow> (Inl e, s)
      | Inr expires \<Rightarrow>
     (case map_of (v_leases (mem s)) (lease_key b t) of
        None \<Rightarrow> (Inl LeaseRequired, s)
      | Some lease \<Rightarrow>
     if \<not> grant_is_active (clock 1) lease then (Inl LeaseRequired, s)
     else (case rnd of
        None \<Rightarrow> (Inl RandomFailed, s)
      | Some gid \<Rightarrow>
          let grant = \<lparr>g_id = gid, g_scope = scope, g_expires_at = expires, g_revoked_at = None,
                       g_used_at = None, cg_project_binding_id = b, cg_lease_id = g_id lease,
                       cg_destination_path_hash = hash_string sha path,
                       cg_resolved_set_hash = hash_resolved_set sha resolved, cg_granted_by = by_whom\<rparr>;
              key = convenience_grant_key sha b path resolved;
              log = [(''action'', DStr ''grant''), (''binding_id'', DStr b), (''destination_path'', DStr path), (''scope'', DStr scope)];
              store = (\<lambda>s. done_with grant
                (persist_and_log io ''write_env'' log
                  (s\<lparr>mem := (mem s)\<lparr>v_conveniences := put key grant (v_conveniences (mem s))\<rparr>\<rparr>)))
          in if scope = ''once'' then
               (case refresh_state io s of
                  (Some e, s1) \<Rightarrow> (Inl e, s1)
                | (None, s1) \<Rightarrow>
                    let s2 = (if map_of (v_leases (mem s1)) (lease_key b t) = None \<and> grant_is_active (clock 2) lease
                              then s1\<lparr>mem := (mem s1)\<lparr>v_leases := put (lease_key b t) lease (v_leases (mem s1))\<rparr>\<rparr>
                              else s1)
                    in if \<not> entry_active (clock 3) (v_leases (mem s2)) (lease_key b t) then (Inl LeaseRequired, s2)
                       else (case existing_grant (clock 4) key (v_conveniences (mem s2)) of
                           Some g \<Rightarrow> (Inr g, s2) | None \<Rightarrow> store s2))
             else store s)))"

definition default_grant_ttl :: duration where
  "default_grant_ttl = 60 * second"

definition max_grant_ttl :: duration where
  "max_grant_ttl = 2 * minute"

text \<open>A missing time to live gets the default.\<close>

definition grant_ttl :: "duration \<Rightarrow> duration" where
  "grant_ttl ttl = (if ttl \<le> 0 then default_grant_ttl else ttl)"

lemma grant_ttl_pos: "0 < grant_ttl ttl"
  by (simp add: grant_ttl_def default_grant_ttl_def second_def)

definition grant_plaintext_use ::
    "io \<Rightarrow> time \<Rightarrow> string option \<Rightarrow> string \<Rightarrow> string \<Rightarrow> string \<Rightarrow> string \<Rightarrow> string \<Rightarrow> duration \<Rightarrow> sys
      \<Rightarrow> (store_error + plaintext_grant) \<times> sys" where
  "grant_plaintext_use io now rnd t raw_item action by_whom scope raw_ttl s =
     (let item = trim raw_item; ttl = grant_ttl raw_ttl in
      if t = [] then (Inl SessionRequired, s)
      else if item = [] then (Inl NameRequired, s)
      else if action \<noteq> ''reveal'' \<and> action \<noteq> ''copy'' then (Inl (UnsupportedAction action), s)
      else if scope \<noteq> ''once'' then (Inl OnceOnly, s)
      else if max_grant_ttl < ttl then (Inl TtlTooLong, s)
      else (case rnd of
          None \<Rightarrow> (Inl RandomFailed, s)
        | Some gid \<Rightarrow>
            let grant = \<lparr>g_id = gid, g_scope = ''once'', g_expires_at = Some (now + ttl), g_revoked_at = None,
                         g_used_at = None, pg_session_token = t, pg_item_name = item, pg_action = action,
                         pg_granted_by = by_whom\<rparr>;
                log = [(''action'', DStr ''grant.plaintext''), (''item'', DStr item), (''plaintext_action'', DStr action),
                       (''scope'', DStr ''once''), (''ttl_seconds'', DInt (whole_seconds ttl))]
            in done_with grant (persist_and_log io ''override'' log
                 (s\<lparr>mem := (mem s)\<lparr>v_plaintexts := put (plaintext_grant_key t item action) grant (v_plaintexts (mem s))\<rparr>\<rparr>))))"

definition normalize_secret_mutation_grant ::
    "string \<Rightarrow> string \<Rightarrow> string \<Rightarrow> string \<Rightarrow> string \<Rightarrow> duration \<Rightarrow> store_error + string \<times> duration" where
  "normalize_secret_mutation_grant b t raw_item action scope raw_ttl =
     (let item = trim raw_item; ttl = grant_ttl raw_ttl in
      if trim b = [] then Inl BindingRequired
      else if trim t = [] then Inl SessionRequired
      else if item = [] then Inl NameRequired
      else if action \<noteq> ''delete'' \<and> action \<noteq> ''expose'' \<and> action \<noteq> ''hide'' then Inl (UnsupportedAction action)
      else if scope \<noteq> ''once'' then Inl OnceOnly
      else if max_grant_ttl < ttl then Inl TtlTooLong
      else Inr (item, ttl))"

definition new_secret_mutation_grant ::
    "time \<Rightarrow> string option \<Rightarrow> string \<Rightarrow> string \<Rightarrow> string \<Rightarrow> string \<Rightarrow> string \<Rightarrow> duration \<Rightarrow> store_error + mutation_grant" where
  "new_secret_mutation_grant now rnd b t item action by_whom ttl =
     (case rnd of
        None \<Rightarrow> Inl RandomFailed
      | Some gid \<Rightarrow> Inr \<lparr>g_id = gid, g_scope = ''once'', g_expires_at = Some (now + ttl), g_revoked_at = None,
          g_used_at = None, mg_binding_id = b, mg_item_name = item, mg_session_token = t, mg_action = action,
          mg_granted_by = by_whom\<rparr>)"

text \<open>\<open>GrantSecretMutation\<close> alone undoes its change when the write fails.\<close>

definition grant_secret_mutation ::
    "io \<Rightarrow> (nat \<Rightarrow> time) \<Rightarrow> string option \<Rightarrow> string \<Rightarrow> string \<Rightarrow> string \<Rightarrow> string \<Rightarrow> string \<Rightarrow> string \<Rightarrow> duration \<Rightarrow> sys
      \<Rightarrow> (store_error + mutation_grant) \<times> sys" where
  "grant_secret_mutation io clock rnd b t raw_item action by_whom scope raw_ttl s =
     (case normalize_secret_mutation_grant b t raw_item action scope raw_ttl of
        Inl e \<Rightarrow> (Inl e, s)
      | Inr (item, ttl) \<Rightarrow>
          if \<not> project_lease_active (clock 0) b t (mem s) then (Inl LeaseRequired, s)
          else (case new_secret_mutation_grant (clock 1) rnd b t item action by_whom ttl of
              Inl e \<Rightarrow> (Inl e, s)
            | Inr grant \<Rightarrow>
                let key = mutation_grant_key b t item action;
                    log = [(''action'', DStr ''grant.secret_mutation''), (''binding_id'', DStr b), (''item'', DStr item),
                           (''mutation_action'', DStr action), (''ttl_seconds'', DInt (whole_seconds ttl))]
                in (case persist_and_log io ''override'' log
                           (s\<lparr>mem := (mem s)\<lparr>v_mutations := put key grant (v_mutations (mem s))\<rparr>\<rparr>) of
                      (None, s') \<Rightarrow> (Inr grant, s')
                    | (Some e, s') \<Rightarrow> (Inl e, s'\<lparr>mem := (mem s')\<lparr>v_mutations :=
                         (case map_of (v_mutations (mem s)) key of
                            Some previous \<Rightarrow> put key previous (v_mutations (mem s'))
                          | None \<Rightarrow> del key (v_mutations (mem s')))\<rparr>\<rparr>))))"

section \<open>Explicit consumption and revocation\<close>

text \<open>The entry an explicit consumption marks: present and of scope once, whatever its activity.\<close>

definition mark_used :: "string \<Rightarrow> time \<Rightarrow> ('a grant_scheme) gomap \<Rightarrow> ('a grant_scheme) gomap option" where
  "mark_used key now m =
     (case map_of m key of
        None \<Rightarrow> None
      | Some g \<Rightarrow> if g_scope g \<noteq> ''once'' then None else Some (put key (use_grant now g) m))"

definition consume_project_lease :: "io \<Rightarrow> time \<Rightarrow> string \<Rightarrow> string \<Rightarrow> sys \<Rightarrow> store_error option \<times> sys" where
  "consume_project_lease io now b t s =
     (case mark_used (lease_key b t) now (v_leases (mem s)) of
        None \<Rightarrow> (None, s)
      | Some m \<Rightarrow> persist_and_log io ''grant.project.consume'' [(''binding_id'', DStr b)]
                    (s\<lparr>mem := (mem s)\<lparr>v_leases := m\<rparr>\<rparr>))"

definition consume_secret_grant :: "io \<Rightarrow> time \<Rightarrow> string \<Rightarrow> string \<Rightarrow> string \<Rightarrow> sys \<Rightarrow> store_error option \<times> sys" where
  "consume_secret_grant io now b t item s =
     (case mark_used (secret_grant_key b t item) now (v_secrets (mem s)) of
        None \<Rightarrow> (None, s)
      | Some m \<Rightarrow> persist_and_log io ''grant.secret.consume'' [(''binding_id'', DStr b), (''item'', DStr item)]
                    (s\<lparr>mem := (mem s)\<lparr>v_secrets := m\<rparr>\<rparr>))"

definition consume_convenience_grant ::
    "(string \<Rightarrow> string) \<Rightarrow> io \<Rightarrow> time \<Rightarrow> string \<Rightarrow> string \<Rightarrow> string list \<Rightarrow> sys \<Rightarrow> store_error option \<times> sys" where
  "consume_convenience_grant sha io now b path resolved s =
     (case mark_used (convenience_grant_key sha b path resolved) now (v_conveniences (mem s)) of
        None \<Rightarrow> (None, s)
      | Some m \<Rightarrow> persist_and_log io ''write_env''
                    [(''action'', DStr ''consume''), (''binding_id'', DStr b), (''destination_path'', DStr path)]
                    (s\<lparr>mem := (mem s)\<lparr>v_conveniences := m\<rparr>\<rparr>))"

definition consume_plaintext_grant ::
    "io \<Rightarrow> time \<Rightarrow> string \<Rightarrow> string \<Rightarrow> string \<Rightarrow> sys \<Rightarrow> store_error option \<times> sys" where
  "consume_plaintext_grant io now t item action s =
     (case mark_used (plaintext_grant_key t item action) now (v_plaintexts (mem s)) of
        None \<Rightarrow> (None, s)
      | Some m \<Rightarrow> persist_and_log io ''override''
                    [(''action'', DStr ''consume.plaintext''), (''item'', DStr item), (''plaintext_action'', DStr action)]
                    (s\<lparr>mem := (mem s)\<lparr>v_plaintexts := m\<rparr>\<rparr>))"

definition consume_secret_mutation_grant ::
    "io \<Rightarrow> (nat \<Rightarrow> time) \<Rightarrow> string \<Rightarrow> string \<Rightarrow> string \<Rightarrow> string \<Rightarrow> sys \<Rightarrow> store_error option \<times> sys" where
  "consume_secret_mutation_grant io clock b t raw_item action s =
     (let item = trim raw_item; key = mutation_grant_key b t item action in
      case map_of (v_mutations (mem s)) key of
        None \<Rightarrow> (Some MutationGrantRequired, s)
      | Some g \<Rightarrow>
          if \<not> mutation_grant_active clock b t item action (mem s) then (Some MutationGrantRequired, s)
          else persist_and_log io ''override''
                 [(''action'', DStr ''consume.secret_mutation''), (''binding_id'', DStr b), (''item'', DStr item),
                  (''mutation_action'', DStr action)]
                 (s\<lparr>mem := (mem s)\<lparr>v_mutations := put key (use_grant (clock 2) g) (v_mutations (mem s))\<rparr>\<rparr>))"

text \<open>A loop that revokes the matching entries that are not revoked yet, and how many it meets.\<close>

definition revoke_where :: "('a grant_scheme \<Rightarrow> bool) \<Rightarrow> time \<Rightarrow> ('a grant_scheme) gomap \<Rightarrow> ('a grant_scheme) gomap" where
  "revoke_where P now m = map_vals (\<lambda>_ g. if P g \<and> g_revoked_at g = None then revoke_grant now g else g) m"

definition count_where :: "('a grant_scheme \<Rightarrow> bool) \<Rightarrow> ('a grant_scheme) gomap \<Rightarrow> nat" where
  "count_where P m = length (filter (\<lambda>g. P g \<and> g_revoked_at g = None) (vals m))"

definition revoke_project_lease :: "io \<Rightarrow> time \<Rightarrow> string \<Rightarrow> string \<Rightarrow> sys \<Rightarrow> store_error option \<times> sys" where
  "revoke_project_lease io now b t s =
     (let key = lease_key b t; v = mem s in
      case map_of (v_leases v) key of
        None \<Rightarrow> (None, s)
      | Some lease \<Rightarrow> persist_and_log io ''deny'' [(''action'', DStr ''grant.project.revoke''), (''binding_id'', DStr b)]
          (s\<lparr>mem := v\<lparr>v_leases := put key (revoke_grant now lease) (v_leases v),
             v_conveniences := revoke_where (\<lambda>g. cg_project_binding_id g = b \<and> cg_lease_id g = g_id lease) now (v_conveniences v),
             v_mutations := revoke_where (\<lambda>g. mg_binding_id g = b \<and> mg_session_token g = t) now (v_mutations v)\<rparr>\<rparr>))"

definition revoke_grants_for_item :: "io \<Rightarrow> time \<Rightarrow> string \<Rightarrow> sys \<Rightarrow> (nat \<times> store_error option) \<times> sys" where
  "revoke_grants_for_item io now item s =
     (let v = mem s;
          revoked = count_where (\<lambda>g. sg_item_name g = item) (v_secrets v)
                  + count_where (\<lambda>g. pg_item_name g = item) (v_plaintexts v)
                  + count_where (\<lambda>g. mg_item_name g = item) (v_mutations v);
          s1 = s\<lparr>mem := v\<lparr>v_secrets := revoke_where (\<lambda>g. sg_item_name g = item) now (v_secrets v),
                 v_plaintexts := revoke_where (\<lambda>g. pg_item_name g = item) now (v_plaintexts v),
                 v_mutations := revoke_where (\<lambda>g. mg_item_name g = item) now (v_mutations v)\<rparr>\<rparr>
      in if revoked = 0 then ((0, None), s1)
         else (case persist_and_log io ''deny'' [(''action'', DStr ''grant.item.revoke''), (''item'', DStr item),
                      (''revoked_count'', DInt (int revoked))] s1 of
                 (e, s2) \<Rightarrow> ((revoked, e), s2)))"

definition revoke_all_grants :: "io \<Rightarrow> time \<Rightarrow> sys \<Rightarrow> (nat \<times> store_error option) \<times> sys" where
  "revoke_all_grants io now s =
     (let v = mem s;
          revoked = count_where (\<lambda>_. True) (v_leases v) + count_where (\<lambda>_. True) (v_secrets v)
                  + count_where (\<lambda>_. True) (v_conveniences v) + count_where (\<lambda>_. True) (v_plaintexts v)
                  + count_where (\<lambda>_. True) (v_mutations v);
          s1 = s\<lparr>mem := v\<lparr>v_leases := revoke_where (\<lambda>_. True) now (v_leases v),
                 v_secrets := revoke_where (\<lambda>_. True) now (v_secrets v),
                 v_conveniences := revoke_where (\<lambda>_. True) now (v_conveniences v),
                 v_plaintexts := revoke_where (\<lambda>_. True) now (v_plaintexts v),
                 v_mutations := revoke_where (\<lambda>_. True) now (v_mutations v)\<rparr>\<rparr>
      in if revoked = 0 then ((0, None), s1)
         else (case persist_and_log io ''deny'' [(''action'', DStr ''grant.revoke_all''), (''revoked_count'', DInt (int revoked))] s1 of
                 (e, s2) \<Rightarrow> ((revoked, e), s2)))"

text \<open>The snapshots, sorted by id.\<close>

definition list_project_leases :: "vault \<Rightarrow> project_lease list" where
  "list_project_leases v = sort_on g_id (vals (v_leases v))"

definition list_secret_grants :: "vault \<Rightarrow> secret_grant list" where
  "list_secret_grants v = sort_on g_id (vals (v_secrets v))"

definition list_plaintext_grants :: "vault \<Rightarrow> plaintext_grant list" where
  "list_plaintext_grants v = sort_on g_id (vals (v_plaintexts v))"

definition list_mutation_grants :: "vault \<Rightarrow> mutation_grant list" where
  "list_mutation_grants v = sort_on g_id (vals (v_mutations v))"

section \<open>Once grants never come back\<close>

text \<open>A once grant without expiry, which is what the minting operations create.\<close>

definition once_entry :: "('a grant_scheme) gomap \<Rightarrow> string \<Rightarrow> 'a grant_scheme \<Rightarrow> bool" where
  "once_entry m k g \<longleftrightarrow> map_of m k = Some g \<and> g_scope g = ''once'' \<and> g_expires_at g = None"

definition once_le :: "('a grant_scheme) gomap \<Rightarrow> ('a grant_scheme) gomap \<Rightarrow> bool" where
  "once_le m m' \<longleftrightarrow> (\<forall>k g. once_entry m k g \<longrightarrow>
     (\<exists>g'. once_entry m' k g' \<and> (g_used_at g \<noteq> None \<longrightarrow> g_used_at g' \<noteq> None)
         \<and> (g_revoked_at g \<noteq> None \<longrightarrow> g_revoked_at g' \<noteq> None)))"

definition once_preserved :: "vault \<Rightarrow> vault \<Rightarrow> bool" where
  "once_preserved v v' \<longleftrightarrow> once_le (v_leases v) (v_leases v') \<and> once_le (v_secrets v) (v_secrets v')
     \<and> once_le (v_conveniences v) (v_conveniences v')"

lemma once_le_refl [simp]: "once_le m m"
  by (auto simp: once_le_def)

lemma once_le_trans:
  assumes "once_le a b" and "once_le b c"
  shows "once_le a c"
  unfolding once_le_def
proof (intro allI impI)
  fix k g assume "once_entry a k g"
  with assms(1) obtain g' where g': "once_entry b k g'" "g_used_at g \<noteq> None \<longrightarrow> g_used_at g' \<noteq> None"
    "g_revoked_at g \<noteq> None \<longrightarrow> g_revoked_at g' \<noteq> None" unfolding once_le_def by blast
  with assms(2) obtain g'' where "once_entry c k g''" "g_used_at g' \<noteq> None \<longrightarrow> g_used_at g'' \<noteq> None"
    "g_revoked_at g' \<noteq> None \<longrightarrow> g_revoked_at g'' \<noteq> None" unfolding once_le_def by blast
  with g' show "\<exists>g'. once_entry c k g' \<and> (g_used_at g \<noteq> None \<longrightarrow> g_used_at g' \<noteq> None)
      \<and> (g_revoked_at g \<noteq> None \<longrightarrow> g_revoked_at g' \<noteq> None)" by blast
qed

lemma once_preserved_refl [simp]: "once_preserved v v"
  by (simp add: once_preserved_def)

lemma once_preserved_trans: "once_preserved a b \<Longrightarrow> once_preserved b c \<Longrightarrow> once_preserved a c"
  unfolding once_preserved_def by (elim conjE, intro conjI) (rule once_le_trans; assumption)+

lemma once_preserved_read_state [simp]: "once_preserved (read_state v) w = once_preserved v w"
  by (simp add: once_preserved_def)

lemma use_grant_simps [simp]:
  "g_used_at (use_grant now g) = Some now" "g_scope (use_grant now g) = g_scope g"
  "g_expires_at (use_grant now g) = g_expires_at g" "g_revoked_at (use_grant now g) = g_revoked_at g"
  "g_id (use_grant now g) = g_id g"
  by (simp_all add: use_grant_def)

lemma put_used_le:
  assumes "map_of m k = Some g"
  shows "once_le m (put k (use_grant now g) m)"
  unfolding once_le_def
proof (intro allI impI)
  fix j h assume h: "once_entry m j h"
  show "\<exists>h'. once_entry (put k (use_grant now g) m) j h' \<and> (g_used_at h \<noteq> None \<longrightarrow> g_used_at h' \<noteq> None)
      \<and> (g_revoked_at h \<noteq> None \<longrightarrow> g_revoked_at h' \<noteq> None)"
  proof (cases "j = k")
    case True
    with h assms show ?thesis by (intro exI [of _ "use_grant now g"]) (simp add: once_entry_def)
  next
    case False
    with h show ?thesis by (intro exI [of _ h]) (simp add: once_entry_def)
  qed
qed

lemma consume_once_le: "consume_once key now m = Some m' \<Longrightarrow> once_le m m'"
  by (auto simp: consume_once_def put_used_le split: option.splits if_splits)

lemma consume_once_marks:
  "once_entry m k g \<Longrightarrow> g_revoked_at g = None \<Longrightarrow> g_used_at g = None \<Longrightarrow>
     consume_once k now m = Some (put k (use_grant now g) m)"
  by (simp add: consume_once_def once_entry_def grant_is_active_def)

lemma put_existing_le:
  assumes "existing_grant now k m = None"
  shows "once_le m (put k g m)"
  unfolding once_le_def
proof (intro allI impI)
  fix j h assume h: "once_entry m j h"
  with assms have "j \<noteq> k" by (auto simp: existing_grant_def once_entry_def)
  with h show "\<exists>h'. once_entry (put k g m) j h' \<and> (g_used_at h \<noteq> None \<longrightarrow> g_used_at h' \<noteq> None)
      \<and> (g_revoked_at h \<noteq> None \<longrightarrow> g_revoked_at h' \<noteq> None)"
    by (intro exI [of _ h]) (simp add: once_entry_def)
qed

lemma consume_lease_tables:
  "once_preserved v (snd (consume_project_lease_for_request req now v))"
  "v_secrets (snd (consume_project_lease_for_request req now v)) = v_secrets v"
  "v_conveniences (snd (consume_project_lease_for_request req now v)) = v_conveniences v"
  by (auto simp: consume_project_lease_for_request_def once_preserved_def consume_once_le split: option.split)

lemma consume_secret_tables:
  "once_preserved v (snd (consume_secret_grant_for_request req now v))"
  "v_leases (snd (consume_secret_grant_for_request req now v)) = v_leases v"
  "v_conveniences (snd (consume_secret_grant_for_request req now v)) = v_conveniences v"
  by (auto simp: consume_secret_grant_for_request_def once_preserved_def consume_once_le split: option.split)

lemma consume_convenience_tables:
  "once_preserved v (snd (consume_convenience_grant_for_request sha req now v))"
  "v_leases (snd (consume_convenience_grant_for_request sha req now v)) = v_leases v"
  "v_secrets (snd (consume_convenience_grant_for_request sha req now v)) = v_secrets v"
  by (auto simp: consume_convenience_grant_for_request_def once_preserved_def consume_once_le split: option.split)

lemmas consume_tables = consume_lease_tables consume_secret_tables consume_convenience_tables

lemma consume_once_grants_preserves: "once_preserved v (snd (consume_once_grants sha req now v))"
  unfolding consume_once_grants_def Let_def split_beta
  by (simp add: consume_tables once_preserved_trans [OF once_preserved_trans
        [OF consume_tables(1) consume_tables(4)] consume_tables(7)]
      once_preserved_trans [OF consume_tables(1) consume_tables(4)])

lemma consume_requests_preserves: "once_preserved v (snd (consume_requests sha reqs v))"
proof (induction reqs arbitrary: v)
  case (Cons r reqs)
  obtain req now where r: "r = (req, now)" by force
  from once_preserved_trans [OF consume_once_grants_preserves Cons.IH [of "snd (consume_once_grants sha req now v)"]]
  show ?case by (simp add: r split_beta)
qed simp

section \<open>Handles that share one vault file\<close>

text \<open>The operations that read the file under the lock before they change it. Each comes from one of
  several handles, with its own file-system outcomes and clock readings.\<close>

datatype refresh_op =
    Authorize "timed_request list"
  | MintLease "nat \<Rightarrow> time" "string option" string string duration
  | MintSecret "nat \<Rightarrow> time" "string option" string string string duration bool
  | MintConvenience "nat \<Rightarrow> time" "string option" string string string "string list" string duration

datatype op_result = Decided "access_decision list" | Granted | Failed store_error

definition run_op :: "(string \<Rightarrow> string) \<Rightarrow> io \<Rightarrow> refresh_op \<Rightarrow> sys \<Rightarrow> op_result \<times> sys" where
  "run_op sha io op s =
     (case op of
        Authorize batch \<Rightarrow> (case authorize_batch_and_consume sha io batch s of
            (Inl e, s') \<Rightarrow> (Failed e, s') | (Inr ds, s') \<Rightarrow> (Decided ds, s'))
      | MintLease clock rnd b t ttl \<Rightarrow> (case grant_project_lease io clock rnd b t ''once'' ttl s of
            (Inl e, s') \<Rightarrow> (Failed e, s') | (Inr _, s') \<Rightarrow> (Granted, s'))
      | MintSecret clock rnd b t item ttl relaxed \<Rightarrow>
          (case grant_secret_use io clock rnd b t item ''once'' ttl relaxed s of
            (Inl e, s') \<Rightarrow> (Failed e, s') | (Inr _, s') \<Rightarrow> (Granted, s'))
      | MintConvenience clock rnd b t path resolved by_whom ttl \<Rightarrow>
          (case grant_convenience sha io clock rnd b t path resolved by_whom ''once'' ttl s of
            (Inl e, s') \<Rightarrow> (Failed e, s') | (Inr _, s') \<Rightarrow> (Granted, s')))"

record cluster =
  memories :: "nat \<Rightarrow> vault"
  vault_file :: vault
  events :: "audit_event list"

definition cluster_step ::
    "(string \<Rightarrow> string) \<Rightarrow> nat \<times> io \<times> refresh_op \<Rightarrow> cluster \<Rightarrow> op_result \<times> cluster" where
  "cluster_step sha x c =
     (case x of (h, io, op) \<Rightarrow>
        (case run_op sha io op \<lparr>mem = memories c h, disk = Some (vault_file c), trail = events c\<rparr> of
           (r, s') \<Rightarrow> (r, \<lparr>memories = (memories c)(h := mem s'),
             vault_file = (case disk s' of Some d \<Rightarrow> d | None \<Rightarrow> vault_file c), events = trail s'\<rparr>)))"

lemma authorize_batch_cases:
  assumes run: "authorize_batch_and_consume sha io batch s = (r, s')" and d: "disk s = Some d"
  obtains e where "r = Inl e" "disk s' = Some d"
    | e where "r = Inl e" "disk s' = Some (snd (consume_requests sha (map (\<lambda>(req, clock, now). (req, now)) batch) (read_state d)))"
    | ds where "r = Inr ds" "\<not> list_all ad_allowed ds" "disk s' = Some d"
    | ds consumed v where "r = Inr ds" "batch \<noteq> []" "\<not> mixed_batch batch"
        "ds = map (\<lambda>(req, clock, now). authorize_current sha clock req (read_state d)) batch" "list_all ad_allowed ds"
        "consume_requests sha (map (\<lambda>(req, clock, now). (req, now)) batch) (read_state d) = (consumed, v)"
        "disk s' = Some (if consumed = [] then d else v)"
proof (cases "batch = [] \<or> mixed_batch batch")
  case True
  with run have "\<exists>e. r = Inl e" and "s' = s"
    by (cases "batch = []"; auto simp: authorize_batch_and_consume_def)+
  with d that(1) show thesis by blast
next
  case False
  obtain er s1 where ref: "refresh_state io s = (er, s1)" by force
  show thesis
  proof (cases er)
    case (Some e)
    with run False ref refresh_eqE(4) [OF ref] have "r = Inl e \<and> s' = s"
      by (auto simp: authorize_batch_and_consume_def)
    with d that(1) show thesis by blast
  next
    case None
    with refresh_eqE [OF ref] d have s1: "mem s1 = read_state d" "disk s1 = Some d" by auto
    let ?ds = "map (\<lambda>(req, clock, now). authorize_current sha clock req (read_state d)) batch"
    obtain consumed v where c: "consume_requests sha (map (\<lambda>(req, clock, now). (req, now)) batch) (read_state d) = (consumed, v)"
      by force
    obtain ep s3 where per: "persist io (s1\<lparr>mem := v\<rparr>) = (ep, s3)" by force
    note p = persist_eqE [OF per]
    have fold_disk: "disk (fold consume_event reqs s) = disk s" for reqs s
      by (induction reqs arbitrary: s) (simp_all add: consume_event_def)
    have unfolded: "(r, s') = (if \<not> list_all ad_allowed ?ds then (Inr ?ds, s1)
        else if consumed = [] then (Inr ?ds, s1\<lparr>mem := v\<rparr>)
        else (case ep of Some e \<Rightarrow> (Inl e, s3) | None \<Rightarrow> (Inr ?ds, fold consume_event consumed s3)))"
      using run False ref None s1 c per
      by (cases "list_all ad_allowed ?ds"; cases "consumed = []"; cases ep)
        (simp_all add: authorize_batch_and_consume_def Let_def)
    show thesis
    proof (cases "list_all ad_allowed ?ds")
      case False
      with unfolded s1 that(3) show thesis by simp
    next
      case True
      note allowed = True
      show thesis
      proof (cases "consumed \<noteq> [] \<and> ep \<noteq> None")
        case True
        with unfolded allowed obtain e where "r = Inl e" "s' = s3" by auto
        moreover from p(3) s1 have "disk s3 = Some d \<or> disk s3 = Some v" by simp
        ultimately show thesis using that(1,2) c by auto
      next
        case False2: False
        with unfolded allowed have "r = Inr ?ds"
          by (auto split: option.splits if_splits)
        moreover from unfolded allowed False2 p(4) s1 have "disk s' = Some (if consumed = [] then d else v)"
          by (auto simp: fold_disk split: if_splits)
        ultimately show thesis using that(4) False allowed c by blast
      qed
    qed
  qed
qed

lemma authorize_batch_preserves:
  assumes "authorize_batch_and_consume sha io batch s = (r, s')" and "disk s = Some d"
  shows "\<exists>d'. disk s' = Some d' \<and> once_preserved d d'"
proof -
  let ?reqs = "map (\<lambda>(req, clock, now). (req, now)) batch"
  have *: "once_preserved d (snd (consume_requests sha ?reqs (read_state d)))"
    using consume_requests_preserves [of "read_state d" sha ?reqs] by simp
  show ?thesis
    using assms
  proof (cases rule: authorize_batch_cases)
    case (4 ds consumed v)
    with * show ?thesis by auto
  qed (use * in auto)
qed

text \<open>The steps after a refresh of the minting operations, over any table.\<close>

lemma persist_and_log_result_disk:
  "persist_and_log io ty de s = (e, s') \<Longrightarrow> disk s' = disk s \<or> disk s' = Some (mem s)"
  using persist_and_log_disk [of io ty de s] by simp

lemma done_with_disk:
  "done_with a (persist_and_log io ty de s) = (r, s') \<Longrightarrow> disk s' = disk s \<or> disk s' = Some (mem s)"
  using persist_and_log_disk [of io ty de s]
  by (auto simp: done_with_def split: prod.splits option.splits)

lemma mint_lease_preserves:
  assumes run: "grant_project_lease io clock rnd b t ''once'' ttl s = (r, s')" and d: "disk s = Some d"
  shows "\<exists>d'. disk s' = Some d' \<and> once_preserved d d'"
proof -
  obtain er s1 where ref: "refresh_state io s = (er, s1)" by force
  note f = refresh_eqE [OF ref]
  have "once_preserved d (m\<lparr>v_leases := put (lease_key b t) g (v_leases m)\<rparr>)"
    if "m = read_state d" "existing_grant now (lease_key b t) (v_leases m) = None" for m g now
    using that by (simp add: once_preserved_def put_existing_le)
  then show ?thesis
    using run d ref f
    by (auto simp: grant_project_lease_def compute_expiry_def Let_def split: option.splits dest!: done_with_disk)
qed

lemma mint_secret_preserves:
  assumes run: "grant_secret_use io clock rnd b t item ''once'' ttl relaxed s = (r, s')" and d: "disk s = Some d"
  shows "\<exists>d'. disk s' = Some d' \<and> once_preserved d d'"
proof -
  obtain er s1 where ref: "refresh_state io s = (er, s1)" by force
  note f = refresh_eqE [OF ref]
  have "once_preserved d (m\<lparr>v_secrets := put (secret_grant_key b t item) g (v_secrets m)\<rparr>)"
    if "m = read_state d" "existing_grant now (secret_grant_key b t item) (v_secrets m) = None" for m g now
    using that by (simp add: once_preserved_def put_existing_le)
  then show ?thesis
    using run d ref f
    by (auto simp: grant_secret_use_def compute_expiry_def Let_def split: option.splits dest!: done_with_disk)
qed

lemma put_fresh_le: "map_of m k = None \<Longrightarrow> once_le m (put k g m)"
  by (rule put_existing_le [of 0]) (simp add: existing_grant_def)

lemma mint_convenience_preserves:
  assumes run: "grant_convenience sha io clock rnd b t path resolved by_whom ''once'' ttl s = (r, s')"
    and d: "disk s = Some d"
  shows "\<exists>d'. disk s' = Some d' \<and> once_preserved d d'"
proof -
  obtain er s1 where ref: "refresh_state io s = (er, s1)" by force
  note f = refresh_eqE [OF ref]
  let ?key = "convenience_grant_key sha b path resolved"
  have restored: "once_preserved d (read_state d\<lparr>v_leases := put (lease_key b t) l (v_leases d)\<rparr>)"
    if "map_of (v_leases d) (lease_key b t) = None" for l
    using that by (simp add: once_preserved_def put_fresh_le)
  have minted: "once_preserved d (read_state d\<lparr>v_conveniences := put ?key g (v_conveniences d)\<rparr>)"
    if "existing_grant now ?key (v_conveniences d) = None" for g now
    using that by (simp add: once_preserved_def put_existing_le)
  have both: "once_preserved d (read_state d\<lparr>v_leases := put (lease_key b t) l (v_leases d),
      v_conveniences := put ?key g (v_conveniences d)\<rparr>)"
    if "map_of (v_leases d) (lease_key b t) = None" "existing_grant now ?key (v_conveniences d) = None" for l g now
    using that by (simp add: once_preserved_def put_existing_le put_fresh_le)
  show ?thesis
    using run d ref f minted restored both
    by (auto simp: grant_convenience_def compute_expiry_def Let_def
        split: option.splits if_splits dest!: done_with_disk)
qed

lemma run_op_preserves:
  assumes "run_op sha io op s = (r, s')" and "disk s = Some d"
  shows "\<exists>d'. disk s' = Some d' \<and> once_preserved d d'"
proof (cases op)
  case (Authorize batch)
  with assms authorize_batch_preserves show ?thesis
    by (auto simp: run_op_def split: prod.splits sum.splits)
next
  case (MintLease clock rnd b t ttl)
  with assms mint_lease_preserves show ?thesis
    by (auto simp: run_op_def split: prod.splits sum.splits)
next
  case (MintSecret clock rnd b t item ttl relaxed)
  with assms mint_secret_preserves show ?thesis
    by (auto simp: run_op_def split: prod.splits sum.splits)
next
  case (MintConvenience clock rnd b t path resolved by_whom ttl)
  with assms mint_convenience_preserves show ?thesis
    by (auto simp: run_op_def split: prod.splits sum.splits)
qed

section \<open>The grant a request needs\<close>

definition lease_needed :: "(string \<Rightarrow> string) \<Rightarrow> access_request \<Rightarrow> string option" where
  "lease_needed sha req =
     (if ar_operation req \<in> {''list'', ''run'', ''inject'', ''write-env'', ''capture''}
      then Some (lease_key (ar_binding_id req) (ar_session_token req)) else None)"

definition secret_needed :: "(string \<Rightarrow> string) \<Rightarrow> access_request \<Rightarrow> string option" where
  "secret_needed sha req =
     (if ar_operation req \<in> {''run'', ''inject'', ''write-env'', ''capture''}
         \<and> ar_policy req \<in> {''session'', ''access''} \<and> trim (ar_item_name req) \<noteq> []
      then Some (secret_grant_key (ar_binding_id req) (ar_session_token req) (ar_item_name req)) else None)"

definition convenience_needed :: "(string \<Rightarrow> string) \<Rightarrow> access_request \<Rightarrow> string option" where
  "convenience_needed sha req =
     (if ar_operation req = ''write-env'' \<and> (trim (ar_destination_path req) \<noteq> [] \<or> ar_aliases req \<noteq> [])
      then Some (convenience_grant_key sha (ar_binding_id req) (ar_destination_path req) (ar_aliases req)) else None)"

definition spent_entry :: "('a grant_scheme) gomap \<Rightarrow> string \<Rightarrow> bool" where
  "spent_entry m k \<longleftrightarrow> (\<exists>g. once_entry m k g \<and> (g_used_at g \<noteq> None \<or> g_revoked_at g \<noteq> None))"

definition armed_entry :: "('a grant_scheme) gomap \<Rightarrow> string \<Rightarrow> bool" where
  "armed_entry m k \<longleftrightarrow> (\<exists>g. once_entry m k g)"

text \<open>A step that authorised a batch in which some request needs the grant with key \<open>k\<close>.\<close>

definition authorized_with ::
    "(string \<Rightarrow> string) \<Rightarrow> ((string \<Rightarrow> string) \<Rightarrow> access_request \<Rightarrow> string option) \<Rightarrow> string
      \<Rightarrow> nat \<times> io \<times> refresh_op \<Rightarrow> op_result \<Rightarrow> bool" where
  "authorized_with sha needed k x r =
     (case snd (snd x) of
        Authorize batch \<Rightarrow> (case r of
            Decided ds \<Rightarrow> list_all ad_allowed ds \<and> (\<exists>tr\<in>set batch. needed sha (fst tr) = Some k)
          | _ \<Rightarrow> False)
      | _ \<Rightarrow> False)"

lemma once_le_spent: "once_le m m' \<Longrightarrow> spent_entry m k \<Longrightarrow> spent_entry m' k"
  unfolding once_le_def spent_entry_def by blast

lemma once_le_armed: "once_le m m' \<Longrightarrow> armed_entry m k \<Longrightarrow> armed_entry m' k"
  unfolding once_le_def armed_entry_def by blast

lemma active_not_spent: "entry_active now m k \<Longrightarrow> \<not> spent_entry m k"
  by (auto simp: entry_active_def spent_entry_def once_entry_def grant_is_active_def split: option.splits if_splits)

lemma consume_unchanged:
  "\<not> fst (consume_once_grants sha req now v) \<Longrightarrow> snd (consume_once_grants sha req now v) = v"
  by (auto simp: consume_once_grants_def consume_project_lease_for_request_def
      consume_secret_grant_for_request_def consume_convenience_grant_for_request_def Let_def split_beta
      split: option.splits if_splits)

text \<open>The interface between a table of grants and the requests that need one of its entries.\<close>

locale once_table =
  fixes table :: "vault \<Rightarrow> ('g grant_scheme) gomap"
    and needed :: "(string \<Rightarrow> string) \<Rightarrow> access_request \<Rightarrow> string option"
  assumes preserved: "once_preserved v w \<Longrightarrow> once_le (table v) (table w)"
    and read_back: "table (read_state v) = table v"
    and allowed_active: "needed sha req = Some k \<Longrightarrow> ad_allowed (authorize_current sha clock req v) \<Longrightarrow>
          \<exists>i. entry_active (clock i) (table v) k"
    and consumes: "needed sha req = Some k \<Longrightarrow> armed_entry (table v) k \<Longrightarrow> \<not> spent_entry (table v) k \<Longrightarrow>
          fst (consume_once_grants sha req now v) \<and> spent_entry (table (snd (consume_once_grants sha req now v))) k"
begin

lemma consume_requests_spends:
  assumes "(req, now) \<in> set reqs" and "needed sha req = Some k" and "armed_entry (table v) k"
  shows "spent_entry (table (snd (consume_requests sha reqs v))) k"
    and "\<not> spent_entry (table v) k \<Longrightarrow> fst (consume_requests sha reqs v) \<noteq> []"
  using assms
proof (induction reqs arbitrary: v)
  case (Cons r reqs)
  obtain req' now' where r: "r = (req', now')" by force
  let ?v' = "\<lambda>v. snd (consume_once_grants sha req' now' v)"
  have le: "once_le (table v) (table (?v' v))" for v
    by (rule preserved) (rule consume_once_grants_preserves)
  have le': "once_le (table (?v' v)) (table (snd (consume_requests sha reqs (?v' v))))" for v
    by (rule preserved) (rule consume_requests_preserves)
  { case (1 v)
    show ?case
    proof (cases "spent_entry (table (?v' v)) k")
      case True
      from once_le_spent [OF le' this] show ?thesis by (simp add: r split_beta)
    next
      case False
      with once_le_spent [OF le [of v]] consumes [of sha req k v now'] 1 r have "(req, now) \<in> set reqs" by auto
      with Cons.IH(1) [of "?v' v"] 1 once_le_armed [OF le [of v]] show ?thesis by (simp add: r split_beta)
    qed
  next
    case (2 v)
    show ?case
    proof (cases "fst (consume_once_grants sha req' now' v)")
      case True
      then show ?thesis by (simp add: r split_beta)
    next
      case False
      with consume_unchanged [OF this] consumes [of sha req k v now'] 2 r have "(req, now) \<in> set reqs" by auto
      with Cons.IH(2) [of v] 2 consume_unchanged [OF False] show ?thesis by (simp add: r split_beta)
    qed
  }
qed simp_all

lemma cluster_step_le: "once_le (table (vault_file c)) (table (vault_file (snd (cluster_step sha x c))))"
proof -
  obtain h io op where x: "x = (h, io, op)" using prod_cases3 by blast
  obtain r s' where run: "run_op sha io op \<lparr>mem = memories c h, disk = Some (vault_file c), trail = events c\<rparr> = (r, s')"
    by force
  from run_op_preserves [OF run] preserved show ?thesis by (auto simp: cluster_step_def x run)
qed

lemma authorized_spends:
  assumes armed: "armed_entry (table (vault_file c)) k"
    and auth: "authorized_with sha needed k x (fst (cluster_step sha x c))"
  shows "\<not> spent_entry (table (vault_file c)) k \<and> spent_entry (table (vault_file (snd (cluster_step sha x c)))) k"
proof -
  obtain h io op where x: "x = (h, io, op)" using prod_cases3 by blast
  let ?s = "\<lparr>mem = memories c h, disk = Some (vault_file c), trail = events c\<rparr>"
  from auth x obtain batch where op: "op = Authorize batch"
    by (auto simp: authorized_with_def split: refresh_op.splits)
  obtain r s' where run: "authorize_batch_and_consume sha io batch ?s = (r, s')" by force
  from auth obtain ds where r: "r = Inr ds" and ok: "list_all ad_allowed ds"
    and "\<exists>tr\<in>set batch. needed sha (fst tr) = Some k"
    by (cases r) (auto simp: authorized_with_def cluster_step_def run_op_def x op run)
  then obtain req clock now where tr: "(req, clock, now) \<in> set batch" and need: "needed sha req = Some k"
    by force
  have disk: "disk ?s = Some (vault_file c)" by simp
  show ?thesis
    using run disk
  proof (cases rule: authorize_batch_cases)
    case (4 ds' consumed v)
    let ?reqs = "map (\<lambda>(req, clock, now). (req, now)) batch"
    from 4(4,5) tr have "ad_allowed (authorize_current sha clock req (read_state (vault_file c)))"
      by (auto simp: list_all_iff)
    from allowed_active [OF need this] have unspent: "\<not> spent_entry (table (vault_file c)) k"
      using active_not_spent by (auto simp: read_back)
    from tr have "(req, now) \<in> set ?reqs" by force
    from consume_requests_spends [OF this need, of "read_state (vault_file c)"] armed unspent 4(6)
    have "spent_entry (table v) k" and "consumed \<noteq> []" by (simp_all add: read_back)
    with unspent 4(7) show ?thesis by (simp add: cluster_step_def run_op_def x op run r)
  qed (use r ok in auto)
qed

end

sublocale once_table \<subseteq> once: single_use "cluster_step sha"
  "\<lambda>c. armed_entry (table (vault_file c)) k" "\<lambda>c. spent_entry (table (vault_file c)) k"
  "authorized_with sha needed k" for sha k
  by unfold_locales
    (use once_le_armed once_le_spent cluster_step_le authorized_spends in blast)+

text \<open>The three tables.\<close>

lemma consume_once_spends:
  assumes "armed_entry m k" and "\<not> spent_entry m k"
  obtains m' where "consume_once k now m = Some m'" "spent_entry m' k"
proof -
  from assms obtain g where "once_entry m k g" "g_revoked_at g = None" "g_used_at g = None"
    unfolding armed_entry_def spent_entry_def by blast
  with consume_once_marks [of m k g now] show thesis
    by (intro that [of "put k (use_grant now g) m"]) (auto simp: spent_entry_def once_entry_def)
qed

interpretation lease_table: once_table v_leases lease_needed
proof unfold_locales
  fix sha req k clock v and now :: time
  assume need: "lease_needed sha req = Some k"
  then have op: "ar_operation req \<in> {''list'', ''run'', ''inject'', ''write-env'', ''capture''}"
    and k: "k = lease_key (ar_binding_id req) (ar_session_token req)"
    by (auto simp: lease_needed_def split: if_splits)
  show "ad_allowed (authorize_current sha clock req v) \<Longrightarrow> \<exists>i. entry_active (clock i) (v_leases v) k"
    by (auto simp: authorize_current_def authorize_secret_def write_env_gate_def prompt_def project_lease_active_def
        k Let_def split: if_splits)
  assume "armed_entry (v_leases v) k" and "\<not> spent_entry (v_leases v) k"
  then obtain m' where m': "consume_once k now (v_leases v) = Some m'" "spent_entry m' k"
    by (rule consume_once_spends)
  then have "fst (consume_project_lease_for_request req now v)"
    "v_leases (snd (consume_project_lease_for_request req now v)) = m'"
    by (simp_all add: consume_project_lease_for_request_def k)
  with m' op show "fst (consume_once_grants sha req now v) \<and> spent_entry (v_leases (snd (consume_once_grants sha req now v))) k"
    by (auto simp: consume_once_grants_def Let_def split_beta consume_tables)
qed (auto simp: once_preserved_def)

interpretation secret_table: once_table v_secrets secret_needed
proof unfold_locales
  fix sha req k clock v and now :: time
  assume need: "secret_needed sha req = Some k"
  then have op: "ar_operation req \<in> {''run'', ''inject'', ''write-env'', ''capture''}"
    and policy: "ar_policy req \<in> {''session'', ''access''}" and name: "trim (ar_item_name req) \<noteq> []"
    and k: "k = secret_grant_key (ar_binding_id req) (ar_session_token req) (ar_item_name req)"
    by (auto simp: secret_needed_def split: if_splits)
  have window: "secret_grant_window_active now b t i v \<Longrightarrow> secret_grant_active now b t i v" for now b t i
    by (auto simp: secret_grant_window_active_def secret_grant_active_def entry_active_def split: option.splits if_splits)
  show "ad_allowed (authorize_current sha clock req v) \<Longrightarrow> \<exists>i. entry_active (clock i) (v_secrets v) k"
    using policy op
    by (auto simp: authorize_current_def authorize_secret_def write_env_gate_def prompt_def k Let_def
        secret_grant_active_def [symmetric] dest: window split: if_splits)
  assume "armed_entry (v_secrets v) k" and "\<not> spent_entry (v_secrets v) k"
  then obtain m' where m': "consume_once k now (v_secrets v) = Some m'" "spent_entry m' k"
    by (rule consume_once_spends)
  let ?v = "snd (consume_project_lease_for_request req now v)"
  from m' name have "fst (consume_secret_grant_for_request req now ?v)"
    "v_secrets (snd (consume_secret_grant_for_request req now ?v)) = m'"
    by (simp_all add: consume_secret_grant_for_request_def k consume_tables)
  with m' op show "fst (consume_once_grants sha req now v) \<and> spent_entry (v_secrets (snd (consume_once_grants sha req now v))) k"
    by (auto simp: consume_once_grants_def Let_def split_beta consume_tables)
qed (auto simp: once_preserved_def)

interpretation convenience_table: once_table v_conveniences convenience_needed
proof unfold_locales
  fix sha req k clock v and now :: time
  assume need: "convenience_needed sha req = Some k"
  then have op: "ar_operation req = ''write-env''"
    and dest: "trim (ar_destination_path req) \<noteq> [] \<or> ar_aliases req \<noteq> []"
    and k: "k = convenience_grant_key sha (ar_binding_id req) (ar_destination_path req) (ar_aliases req)"
    by (auto simp: convenience_needed_def split: if_splits)
  show "ad_allowed (authorize_current sha clock req v) \<Longrightarrow> \<exists>i. entry_active (clock i) (v_conveniences v) k"
    using dest op
    by (auto simp: authorize_current_def write_env_gate_def prompt_def k convenience_grant_active_def
        split: if_splits)
  assume "armed_entry (v_conveniences v) k" and "\<not> spent_entry (v_conveniences v) k"
  then obtain m' where m': "consume_once k now (v_conveniences v) = Some m'" "spent_entry m' k"
    by (rule consume_once_spends)
  let ?v = "snd (consume_secret_grant_for_request req now (snd (consume_project_lease_for_request req now v)))"
  from m' have "fst (consume_convenience_grant_for_request sha req now ?v)"
    "v_conveniences (snd (consume_convenience_grant_for_request sha req now ?v)) = m'"
    by (simp_all add: consume_convenience_grant_for_request_def k consume_tables)
  with m' op show "fst (consume_once_grants sha req now v) \<and> spent_entry (v_conveniences (snd (consume_once_grants sha req now v))) k"
    by (auto simp: consume_once_grants_def Let_def split_beta)
qed (auto simp: once_preserved_def)

section \<open>Properties\<close>

definition sample_grant_lease :: project_lease where
  "sample_grant_lease = \<lparr>g_id = ''l1'', g_scope = ''once'', g_expires_at = None, g_revoked_at = None,
     g_used_at = None, pl_binding_id = ''b'', pl_session_token = ''t''\<rparr>"

definition sample_secret_grant :: secret_grant where
  "sample_secret_grant = \<lparr>g_id = ''s1'', g_scope = ''once'', g_expires_at = None, g_revoked_at = None,
     g_used_at = None, sg_binding_id = ''b'', sg_item_name = ''db'', sg_session_token = ''t'', sg_relaxed_by_window = False\<rparr>"

definition sample_vault :: vault where
  "sample_vault = empty_vault\<lparr>v_leases := [(''b|t'', sample_grant_lease)], v_secrets := [(''b|t|db'', sample_secret_grant)]\<rparr>"

definition sample_request :: access_request where
  "sample_request = \<lparr>ar_operation = ''run'', ar_binding_id = ''b'', ar_session_token = ''t'', ar_item_name = ''db'',
     ar_policy = ''session'', ar_destination_path = [], ar_aliases = [], ar_creating_new = False\<rparr>"

definition sample_cluster :: cluster where
  "sample_cluster = \<lparr>memories = (\<lambda>_. empty_vault), vault_file = sample_vault, events = []\<rparr>"

definition sample_step :: "nat \<Rightarrow> nat \<times> io \<times> refresh_op" where
  "sample_step h = (h, io_ok, Authorize [(sample_request, (\<lambda>_. 5), 6)])"





definition decision_ok :: "access_decision \<Rightarrow> bool" where
  "decision_ok d \<longleftrightarrow> ad_requires_prompt d = (ad_allowed d = False) \<and> (required_action d = '''') = ad_allowed d"

lemma decision_ok_prompt [simp]: "q \<noteq> '''' \<Longrightarrow> decision_ok (prompt r q)"
  by (simp add: decision_ok_def prompt_def required_action_def)

lemma decision_ok_allow [simp]:
  "decision_ok (allow ''scoped_listing_allowed'')" "decision_ok (allow ''auto_secret_allowed'')"
  "decision_ok (allow ''session_secret_allowed'')" "decision_ok (allow ''access_window_override_allowed'')"
  "decision_ok (allow ''access_secret_allowed'')"
  by (simp_all add: decision_ok_def allow_def required_action_def)

lemma allowed_simps [simp]: "\<not> ad_allowed (prompt r q)" "ad_allowed (allow r)"
  by (simp_all add: prompt_def allow_def)

lemma authorize_secret_allowed:
  "ad_allowed (authorize_secret (\<lambda>_. now) req policy v) \<longleftrightarrow>
     project_lease_active now (ar_binding_id req) (ar_session_token req) v \<and>
     (policy = ''auto'' \<or> (policy = ''session'' \<or> policy = ''access'')
        \<and> secret_grant_active now (ar_binding_id req) (ar_session_token req) (ar_item_name req) v)"
proof -
  have "secret_grant_window_active now b t i v \<Longrightarrow> secret_grant_active now b t i v" for b t i
    by (auto simp: secret_grant_window_active_def secret_grant_active_def entry_active_def split: option.splits if_splits)
  then show ?thesis by (auto simp: authorize_secret_def)
qed

lemma authorize_current_allowed:
  "ad_allowed (authorize_current sha (\<lambda>_. now) req v) \<longleftrightarrow> project_lease_active now (ar_binding_id req) (ar_session_token req) v \<and> (ar_operation req = ''list'' \<or>
       (ar_operation req = ''run'' \<or> ar_operation req = ''inject'' \<or> ar_operation req = ''write-env''
         \<or> (ar_operation req = ''capture'' \<and> ar_creating_new req = False)) \<and>
       (if ar_operation req = ''write-env'' \<and> (trim (ar_destination_path req) \<noteq> [] \<or> ar_aliases req \<noteq> [])
        then convenience_grant_active sha now (ar_binding_id req) (ar_destination_path req) (ar_aliases req) v else True)
       \<and> (if ar_policy req \<in> {'''', ''auto''} then True
     else ar_policy req \<in> {''session'', ''access''}
       \<and> secret_grant_active now (ar_binding_id req) (ar_session_token req) (ar_item_name req) v))"
proof -
  let ?d = "authorize_current sha (\<lambda>_. now) req v"
  let ?lease = "project_lease_active now (ar_binding_id req) (ar_session_token req) v"
  let ?secret = "if ar_policy req \<in> {'''', ''auto''} then True
     else ar_policy req \<in> {''session'', ''access''}
       \<and> secret_grant_active now (ar_binding_id req) (ar_session_token req) (ar_item_name req) v"
  have secret: "ad_allowed (authorize_secret (\<lambda>_. now) req (if ar_policy req = '''' then ''auto'' else ar_policy req) v)
      \<longleftrightarrow> ?lease \<and> ?secret"
    by (simp add: authorize_secret_allowed)

  consider "ar_operation req = ''list''" | "ar_operation req = ''run'' \<or> ar_operation req = ''inject''"
    | "ar_operation req = ''write-env''" | "ar_operation req = ''capture''"
    | "ar_operation req \<notin> {''list'', ''run'', ''inject'', ''write-env'', ''capture''}" by blast
  then show ?thesis
  proof cases
    case 1
    then show ?thesis by (simp add: authorize_current_def Let_def)
  next
    case 2
    then have "?d = authorize_secret (\<lambda>_. now) req (if ar_policy req = '''' then ''auto'' else ar_policy req) v"
      by (elim disjE) (simp_all add: authorize_current_def write_env_gate_def)
    with 2 show ?thesis by (elim disjE) (simp_all only: secret, simp_all split del: if_split)
  next
    case 3
    then have d: "?d = (case write_env_gate sha (\<lambda>_. now) req v of Some d \<Rightarrow> d
        | None \<Rightarrow> authorize_secret (\<lambda>_. now) req (if ar_policy req = '''' then ''auto'' else ar_policy req) v)"
      by (simp add: authorize_current_def split: option.split)
    show ?thesis
    proof (cases "trim (ar_destination_path req) \<noteq> [] \<or> ar_aliases req \<noteq> []")
      case True
      with 3 show ?thesis
        by (cases ?lease; cases "convenience_grant_active sha now (ar_binding_id req) (ar_destination_path req) (ar_aliases req) v")
          (simp_all add: d write_env_gate_def secret split del: if_split)
    next
      case False
      with 3 show ?thesis by (simp add: d write_env_gate_def secret split del: if_split)
    qed
  next
    case 4
    show ?thesis
    proof (cases "ar_creating_new req")
      case True
      with 4 show ?thesis by (simp add: authorize_current_def)
    next
      case False
      with 4 have "?d = authorize_secret (\<lambda>_. now) req (if ar_policy req = '''' then ''auto'' else ar_policy req) v"
        by (simp add: authorize_current_def write_env_gate_def)
      with 4 False show ?thesis by (simp add: secret split del: if_split)
    qed
  next
    case 5
    then show ?thesis by (simp add: authorize_current_def write_env_gate_def)
  qed
qed

text \<open>C10: The decision table: at one instant a request is allowed exactly when its project lease is
  active, the operation is known and creates nothing new by capture, an explicit write has its
  convenience grant, and the item's policy is auto or its secret grant is active; a refusal asks for
  a prompt and names a requirement.\<close>

theorem authorize_decision_table:
  "let d = authorize_current sha (\<lambda>_. now) req v; b = ar_binding_id req; t = ar_session_token req; op = ar_operation req in
   ad_allowed d =
     (project_lease_active now b t v \<and>
      (op = ''list'' \<or>
       (op = ''run'' \<or> op = ''inject'' \<or> op = ''write-env'' \<or> (op = ''capture'' \<and> ar_creating_new req = False)) \<and>
       (if op = ''write-env'' \<and> (trim (ar_destination_path req), ar_aliases req) \<noteq> ([], [])
        then convenience_grant_active sha now b (ar_destination_path req) (ar_aliases req) v else True) \<and>
       (if ar_policy req \<in> {'''', ''auto''} then True
        else ar_policy req \<in> {''session'', ''access''} \<and> secret_grant_active now b t (ar_item_name req) v))) \<and>
   ad_requires_prompt d = (ad_allowed d = False) \<and>
   (required_action d = '''') = ad_allowed d"
proof -
  have "decision_ok (authorize_current sha (\<lambda>_. now) req v)"
    by (simp add: authorize_current_def write_env_gate_def authorize_secret_def Let_def)
  with authorize_current_allowed [of sha now req v] show ?thesis
    by (simp only: Let_def decision_ok_def simp_thms prod.inject de_Morgan_conj)
qed

text \<open>C19: A batch with a refused member consumes nothing: the file and the audit trail are untouched
  and the handle holds exactly what the file held.\<close>

theorem denied_batch_consumes_nothing:
  assumes "authorize_batch_and_consume sha io batch s = (Inr ds, s')" and "list_all ad_allowed ds = False"
  shows "disk s' = disk s \<and> trail s' = trail s \<and> map_option read_state (disk s) = Some (mem s')"
proof -
  have "batch \<noteq> [] \<and> \<not> mixed_batch batch"
    using assms(1) by (auto simp: authorize_batch_and_consume_def split: if_splits)
  moreover obtain e s1 where ref: "refresh_state io s = (e, s1)" by force
  ultimately show ?thesis
    using assms refresh_eqE [OF ref]
    by (auto simp: authorize_batch_and_consume_def Let_def split_beta split: option.splits if_splits prod.splits)
qed

theorem denied_batch_consumes_nothing_witness:
  "disk (snd (authorize_batch_and_consume (\<lambda>s. s) io_ok [(sample_request\<lparr>ar_session_token := ''u''\<rparr>, (\<lambda>_. 5), 6)]
      \<lparr>mem = empty_vault, disk = Some sample_vault, trail = []\<rparr>)) = Some sample_vault"
  using denied_batch_consumes_nothing [of "\<lambda>s. s" io_ok "[(sample_request\<lparr>ar_session_token := ''u''\<rparr>, (\<lambda>_. 5), 6)]"
      "\<lparr>mem = empty_vault, disk = Some sample_vault, trail = []\<rparr>"
      "[prompt ''project_lease_required'' ''project_lease'']" "\<lparr>mem = read_state sample_vault, disk = Some sample_vault, trail = []\<rparr>"]
  by (simp add: authorize_batch_and_consume_def mixed_batch_def refresh_state_def io_ok_def authorize_current_def
      authorize_secret_def write_env_gate_def sample_request_def project_lease_active_def entry_active_def
      sample_vault_def lease_key_def prompt_def)

text \<open>A once lease is minted at most once for a binding and session: a second request, even after
  the lease was consumed or revoked, returns the recorded lease and writes nothing.\<close>

theorem once_lease_minted_once:
  assumes "disk s = Some d" and "map_of (v_leases d) (lease_key b t) = Some g" and "g_scope g = ''once''"
    and "io_refresh_ok io" and "rnd = Some gid"
  shows "grant_project_lease io clock rnd b t ''once'' ttl s = (Inr g, s\<lparr>mem := read_state d\<rparr>)"
  using assms by (simp add: grant_project_lease_def compute_expiry_def refresh_state_def existing_grant_def Let_def)

theorem once_lease_minted_once_witness:
  "fst (grant_project_lease io_ok (\<lambda>_. 9) (Some ''l2'') ''b'' ''t'' ''once'' 0
     \<lparr>mem = empty_vault, disk = Some (sample_vault\<lparr>v_leases := [(''b|t'', use_grant 7 sample_grant_lease)]\<rparr>), trail = []\<rparr>)
   = Inr (use_grant 7 sample_grant_lease)"
  by (subst once_lease_minted_once [of _ "sample_vault\<lparr>v_leases := [(''b|t'', use_grant 7 sample_grant_lease)]\<rparr>"])
    (simp_all add: lease_key_def io_ok_def sample_grant_lease_def)

lemma revoke_grant_inactive [simp]: "grant_is_active now' (revoke_grant now g) = False"
  by (simp add: grant_is_active_def revoke_grant_def)

lemma revoke_where_inactive:
  "map_of m k = Some g \<Longrightarrow> P g \<Longrightarrow> entry_active now' (revoke_where P now m) k = False"
  by (auto simp: entry_active_def revoke_where_def grant_is_active_def revoke_grant_def)

lemma revoke_all_inactive [simp]: "entry_active now' (revoke_where (\<lambda>_. True) now m) k = False"
  by (cases "map_of m k") (auto simp: entry_active_def revoke_where_def grant_is_active_def revoke_grant_def)

text \<open>Nothing in the vault is active, now or ever.\<close>

definition nothing_active :: "vault \<Rightarrow> bool" where
  "nothing_active v \<longleftrightarrow> (\<forall>now k. entry_active now (v_leases v) k = False \<and> entry_active now (v_secrets v) k = False
     \<and> entry_active now (v_conveniences v) k = False \<and> entry_active now (v_plaintexts v) k = False
     \<and> entry_active now (v_mutations v) k = False)"

lemma nothing_active_denies:
  "nothing_active v \<Longrightarrow> ad_allowed (authorize_current sha clock req v) = False"
  by (auto simp: nothing_active_def authorize_current_def authorize_secret_def write_env_gate_def
      project_lease_active_def Let_def)


definition all_revoked :: "('a grant_scheme \<Rightarrow> bool) \<Rightarrow> ('a grant_scheme) gomap \<Rightarrow> bool" where
  "all_revoked P m \<longleftrightarrow> (\<forall>g\<in>set (vals m). P g \<longrightarrow> g_revoked_at g \<noteq> None)"

lemma all_revoked_where:
  "(\<And>g. P (revoke_grant now g) = P g) \<Longrightarrow> all_revoked P (revoke_where P now m)"
  by (auto simp: all_revoked_def vals_def revoke_where_def map_vals_def revoke_grant_def)

text \<open>After \<open>RevokeProjectLease\<close> on a recorded lease every request with that binding and session is
  refused at any time, the convenience grants issued under the lease and the mutation grants of the
  session are inactive, and other leases are untouched; without an error the file holds the same.\<close>

theorem revoke_project_lease_cascades:
  assumes "map_of (v_leases (mem s)) (lease_key b t) = Some lease"
    and "ar_binding_id req = b" and "ar_session_token req = t"
  shows "case revoke_project_lease io now b t s of
     (e, s') \<Rightarrow> ad_allowed (authorize_current sha clock req (mem s')) = False
       \<and> mutation_grant_active clock b t item action (mem s') = False
       \<and> all_revoked (\<lambda>g. cg_project_binding_id g = b \<and> cg_lease_id g = g_id lease) (v_conveniences (mem s'))
       \<and> all_revoked (\<lambda>g. mg_binding_id g = b \<and> mg_session_token g = t) (v_mutations (mem s'))
       \<and> (map_of (v_leases (mem s')))(lease_key b t := None) = (map_of (v_leases (mem s)))(lease_key b t := None)
       \<and> (if e = None then disk s' = Some (mem s') else True)"
proof -
  obtain e s' where run: "revoke_project_lease io now b t s = (e, s')" by force
  let ?v = "(mem s)\<lparr>v_leases := put (lease_key b t) (revoke_grant now lease) (v_leases (mem s)),
     v_conveniences := revoke_where (\<lambda>g. cg_project_binding_id g = b \<and> cg_lease_id g = g_id lease) now (v_conveniences (mem s)),
     v_mutations := revoke_where (\<lambda>g. mg_binding_id g = b \<and> mg_session_token g = t) now (v_mutations (mem s))\<rparr>"
  from run assms(1) have p: "persist_and_log io ''deny'' [(''action'', DStr ''grant.project.revoke''), (''binding_id'', DStr b)]
      (s\<lparr>mem := ?v\<rparr>) = (e, s')"
    by (simp add: revoke_project_lease_def Let_def)
  have mem: "mem s' = ?v" and disk: "e = None \<Longrightarrow> disk s' = Some (mem s')"
    using persist_and_log_eqE [OF p] by simp_all
  have dead: "project_lease_active now' b t (mem s') = False" for now'
    by (simp add: mem project_lease_active_def entry_active_def)
  have "all_revoked (\<lambda>g. cg_project_binding_id g = b \<and> cg_lease_id g = g_id lease) (v_conveniences (mem s'))"
    "all_revoked (\<lambda>g. mg_binding_id g = b \<and> mg_session_token g = t) (v_mutations (mem s'))"
    unfolding mem by (simp_all add: all_revoked_where revoke_grant_def)
  moreover
  have "ad_allowed (authorize_current sha clock req (mem s')) = False"
    using dead assms(2,3) by (auto simp: authorize_current_def authorize_secret_def write_env_gate_def Let_def)
  moreover have "mutation_grant_active clock b t item action (mem s') = False"
    using dead by (auto simp: mutation_grant_active_def split: option.split)
  ultimately show ?thesis
    using disk mem by (simp add: run del: if_split)
qed

theorem revoke_project_lease_cascades_witness:
  "ad_allowed (authorize_current (\<lambda>s. s) (\<lambda>_. 8) sample_request
     (mem (snd (revoke_project_lease io_ok 7 ''b'' ''t'' \<lparr>mem = sample_vault, disk = Some sample_vault, trail = []\<rparr>)))) = False"
  using revoke_project_lease_cascades [where s = "\<lparr>mem = sample_vault, disk = Some sample_vault, trail = []\<rparr>"
      and b = "''b''" and t = "''t''" and lease = sample_grant_lease and req = sample_request and io = io_ok
      and now = 7 and sha = "\<lambda>s. s" and clock = "\<lambda>_. 8"]
  by (simp add: sample_vault_def lease_key_def sample_request_def split_beta)

definition expires_within :: "time \<Rightarrow> duration \<Rightarrow> 'a grant_scheme \<Rightarrow> bool" where
  "expires_within now d g = (case g_expires_at g of None \<Rightarrow> False | Some e \<Rightarrow> now < e \<and> e \<le> now + d)"

lemma short_ttl:
  assumes "grant_ttl raw \<le> max_grant_ttl" and "g_expires_at g = Some (now + grant_ttl raw)"
  shows "expires_within now (120 * second) g"
proof -
  have "max_grant_ttl = 120 * second" by (simp add: max_grant_ttl_def minute_def)
  with assms grant_ttl_pos [of raw] show ?thesis by (simp add: expires_within_def)
qed

lemma done_with_InrD:
  "done_with a (persist_and_log io ty de s) = (Inr g, s') \<Longrightarrow> g = a \<and> mem s' = mem s \<and> disk s' = Some (mem s)"
  by (auto simp: done_with_def split: prod.splits option.splits dest!: persist_and_log_okD)

lemma plaintext_issued:
  assumes "grant_plaintext_use io now rnd t raw action by_whom scope raw_ttl s = (Inr g, s')"
  shows "expires_within now (120 * second) g \<and> g_scope g = ''once''
       \<and> pg_item_name g = trim raw \<and> trim raw \<noteq> [] \<and> t \<noteq> [] \<and> action \<in> {''reveal'', ''copy''} \<and> scope = ''once''
       \<and> map_of (v_plaintexts (mem s')) (plaintext_grant_key t (trim raw) action) = Some g \<and> disk s' = Some (mem s')"
proof -
  let ?ttl = "grant_ttl raw_ttl"
  from assms have ok: "t \<noteq> []" "trim raw \<noteq> []" "action = ''reveal'' \<or> action = ''copy''" "scope = ''once''" "?ttl \<le> max_grant_ttl"
    by (auto simp only: grant_plaintext_use_def Let_def not_less sum.inject sum.distinct prod.inject split: if_split_asm)
  then have c: "(action \<noteq> ''reveal'' \<and> action \<noteq> ''copy'') = False" "(max_grant_ttl < ?ttl) = False" by auto
  with assms ok(1,2,4) obtain gid where "rnd = Some gid"
    by (cases rnd) (simp_all add: grant_plaintext_use_def Let_def split del: if_split)
  then have "done_with \<lparr>g_id = gid, g_scope = ''once'', g_expires_at = Some (now + ?ttl), g_revoked_at = None,
      g_used_at = None, pg_session_token = t, pg_item_name = trim raw, pg_action = action, pg_granted_by = by_whom\<rparr>
      (persist_and_log io ''override'' [(''action'', DStr ''grant.plaintext''), (''item'', DStr (trim raw)),
         (''plaintext_action'', DStr action), (''scope'', DStr ''once''), (''ttl_seconds'', DInt (whole_seconds ?ttl))]
        (s\<lparr>mem := (mem s)\<lparr>v_plaintexts := put (plaintext_grant_key t (trim raw) action)
          \<lparr>g_id = gid, g_scope = ''once'', g_expires_at = Some (now + ?ttl), g_revoked_at = None,
      g_used_at = None, pg_session_token = t, pg_item_name = trim raw, pg_action = action, pg_granted_by = by_whom\<rparr>
          (v_plaintexts (mem s))\<rparr>\<rparr>)) = (Inr g, s')"
    using assms ok(1,2,4) c by (simp add: grant_plaintext_use_def Let_def split del: if_split)
  note d = done_with_InrD [OF this]
  then have "expires_within now (120 * second) g" by (intro short_ttl [OF ok(5)]) simp
  with d ok show ?thesis by simp
qed

lemma mutation_issued:
  assumes "grant_secret_mutation io clock rnd b t raw action by_whom scope raw_ttl s = (Inr g, s')"
  shows "expires_within (clock 1) (120 * second) g \<and> g_scope g = ''once''
       \<and> mg_item_name g = trim raw \<and> trim raw \<noteq> [] \<and> trim t \<noteq> [] \<and> trim b \<noteq> []
       \<and> action \<in> {''delete'', ''expose'', ''hide''} \<and> scope = ''once'' \<and> project_lease_active (clock 0) b t (mem s)
       \<and> map_of (v_mutations (mem s')) (mutation_grant_key b t (trim raw) action) = Some g \<and> disk s' = Some (mem s')"
proof -
  let ?ttl = "grant_ttl raw_ttl"
  from assms obtain item ttl where n: "normalize_secret_mutation_grant b t raw action scope raw_ttl = Inr (item, ttl)"
    by (auto simp: grant_secret_mutation_def split: sum.splits)
  then have ok: "trim b \<noteq> []" "trim t \<noteq> []" "trim raw \<noteq> []" "action = ''delete'' \<or> action = ''expose'' \<or> action = ''hide''"
    "scope = ''once''" "?ttl \<le> max_grant_ttl" "item = trim raw" "ttl = ?ttl"
    by (auto simp only: normalize_secret_mutation_grant_def Let_def not_less sum.inject sum.distinct prod.inject split: if_split_asm)
  from assms n have lease: "project_lease_active (clock 0) b t (mem s)"
    by (simp add: grant_secret_mutation_def split: if_splits)
  with assms n obtain g' where g': "new_secret_mutation_grant (clock 1) rnd b t item action by_whom ttl = Inr g'"
    by (auto simp: grant_secret_mutation_def split: sum.splits)
  then have fields: "g_expires_at g' = Some (clock 1 + ttl)" "g_scope g' = ''once''" "mg_item_name g' = item"
    by (auto simp: new_secret_mutation_grant_def split: option.splits)
  from assms n lease g' have "g = g' \<and> mem s' = (mem s)\<lparr>v_mutations := put (mutation_grant_key b t item action) g' (v_mutations (mem s))\<rparr>
      \<and> disk s' = Some (mem s')"
    by (auto simp: grant_secret_mutation_def Let_def split: prod.splits option.splits dest!: persist_and_log_okD)
  moreover have "expires_within (clock 1) (120 * second) g'"
    by (rule short_ttl [OF ok(6)]) (simp add: fields ok)
  ultimately show ?thesis using fields ok lease by simp
qed

text \<open>A plaintext or secret-mutation grant that was issued is single-use, expires at most two minutes
  after it was issued, names a trimmed non-empty item and a known action, and is what the key finds
  in memory and file afterwards.\<close>

theorem short_grants_bounded:
  "(case grant_plaintext_use io now rnd t raw action by_whom scope raw_ttl s of
     (Inl _, _) \<Rightarrow> True
   | (Inr g, s') \<Rightarrow> expires_within now (120 * second) g \<and> g_scope g = ''once''
       \<and> pg_item_name g = trim raw \<and> trim raw \<noteq> [] \<and> t \<noteq> [] \<and> action \<in> {''reveal'', ''copy''} \<and> scope = ''once''
       \<and> map_of (v_plaintexts (mem s')) (plaintext_grant_key t (trim raw) action) = Some g \<and> disk s' = Some (mem s')) \<and>
   (case grant_secret_mutation io clock rnd b t raw action by_whom scope raw_ttl s of
     (Inl _, _) \<Rightarrow> True
   | (Inr g, s') \<Rightarrow> expires_within (clock 1) (120 * second) g \<and> g_scope g = ''once''
       \<and> mg_item_name g = trim raw \<and> trim raw \<noteq> [] \<and> trim t \<noteq> [] \<and> trim b \<noteq> []
       \<and> action \<in> {''delete'', ''expose'', ''hide''} \<and> scope = ''once'' \<and> project_lease_active (clock 0) b t (mem s)
       \<and> map_of (v_mutations (mem s')) (mutation_grant_key b t (trim raw) action) = Some g \<and> disk s' = Some (mem s'))"
proof (rule conjI, goal_cases)
  case 1
  show ?case
  proof (cases "grant_plaintext_use io now rnd t raw action by_whom scope raw_ttl s")
    case (Pair r s1)
    with plaintext_issued show ?thesis by (cases r) auto
  qed
next
  case 2
  show ?case
  proof (cases "grant_secret_mutation io clock rnd b t raw action by_whom scope raw_ttl s")
    case (Pair r s1)
    with mutation_issued show ?thesis by (cases r) auto
  qed
qed

text \<open>A mutation grant is consumed at most once: after a consumption that was not refused, whatever
  became of the write, the same handle refuses every further one.\<close>

theorem mutation_grant_consumed_once:
  assumes "consume_secret_mutation_grant io clock b t item action s = (e, s')" and "e \<noteq> Some MutationGrantRequired"
    and "\<forall>kg\<in>set (v_mutations (mem s)). g_scope (snd kg) = ''once''"
  shows "consume_secret_mutation_grant io' clock' b t item action s' = (Some MutationGrantRequired, s')"
proof -
  let ?k = "mutation_grant_key b t (trim item) action"
  from assms(1,2) obtain g where g: "map_of (v_mutations (mem s)) ?k = Some g"
    and mem: "mem s' = mem s\<lparr>v_mutations := put ?k (use_grant (clock 2) g) (v_mutations (mem s))\<rparr>"
    by (auto simp: consume_secret_mutation_grant_def Let_def split: option.splits if_splits dest: persist_and_log_eqE)
  from g assms(3) have "g_scope g = ''once''" by (auto dest!: map_of_SomeD)
  then show ?thesis
    by (simp add: consume_secret_mutation_grant_def mutation_grant_active_def mem grant_is_active_def Let_def)
qed

definition sample_mutation_grant :: mutation_grant where
  "sample_mutation_grant = \<lparr>g_id = ''m1'', g_scope = ''once'', g_expires_at = Some 100, g_revoked_at = None,
     g_used_at = None, mg_binding_id = ''b'', mg_item_name = ''db'', mg_session_token = ''t'', mg_action = ''hide'',
     mg_granted_by = ''user''\<rparr>"

definition sample_mutation_sys :: sys where
  "sample_mutation_sys =
     (let v = sample_vault\<lparr>v_mutations := [(''b|t|db|hide'', sample_mutation_grant)]\<rparr>
      in \<lparr>mem = v, disk = Some v, trail = []\<rparr>)"

theorem mutation_grant_consumed_once_witness:
  "fst (consume_secret_mutation_grant io_ok (\<lambda>_. 5) ''b'' ''t'' ''db'' ''hide'' sample_mutation_sys) = None \<and>
   fst (consume_secret_mutation_grant io_ok (\<lambda>_. 6) ''b'' ''t'' ''db'' ''hide''
     (snd (consume_secret_mutation_grant io_ok (\<lambda>_. 5) ''b'' ''t'' ''db'' ''hide'' sample_mutation_sys))) = Some MutationGrantRequired"
proof -
  have first: "fst (consume_secret_mutation_grant io_ok (\<lambda>_. 5) ''b'' ''t'' ''db'' ''hide'' sample_mutation_sys) = None"
    by (simp add: consume_secret_mutation_grant_def sample_mutation_sys_def mutation_grant_key_def
        mutation_grant_active_def sample_mutation_grant_def grant_is_active_def project_lease_active_def entry_active_def
        sample_vault_def sample_grant_lease_def lease_key_def persist_and_log_def persist_def io_ok_def Let_def)
  have "\<forall>kg\<in>set (v_mutations (mem sample_mutation_sys)). g_scope (snd kg) = ''once''"
    by (simp add: sample_mutation_sys_def sample_mutation_grant_def Let_def)
  with mutation_grant_consumed_once [of io_ok "\<lambda>_. 5" "''b''" "''t''" "''db''" "''hide''" sample_mutation_sys
      None "snd (consume_secret_mutation_grant io_ok (\<lambda>_. 5) ''b'' ''t'' ''db'' ''hide'' sample_mutation_sys)" io_ok "\<lambda>_. 6"]
    first show ?thesis by (simp add: prod_eq_iff)
qed

text \<open>Splitting a key at its separators.\<close>

lemma cut_first:
  assumes "CHR ''|'' \<notin> set a" and "CHR ''|'' \<notin> set a'"
  shows "a @ ''|'' @ x = a' @ ''|'' @ x' \<longleftrightarrow> a = a' \<and> x = x'"
proof
  assume "a @ ''|'' @ x = a' @ ''|'' @ x'"
  then have "cut_at CHR ''|'' (a @ CHR ''|'' # x) = cut_at CHR ''|'' (a' @ CHR ''|'' # x')" by simp
  then show "a = a' \<and> x = x'" by (simp only: cut_at_append [OF assms(1)] cut_at_append [OF assms(2)]) simp
qed simp

lemma cut_last:
  assumes "CHR ''|'' \<notin> set a" and "CHR ''|'' \<notin> set a'"
  shows "x @ ''|'' @ a = x' @ ''|'' @ a' \<longleftrightarrow> x = x' \<and> a = a'"
proof
  assume "x @ ''|'' @ a = x' @ ''|'' @ a'"
  then have "rev (x @ ''|'' @ a) = rev (x' @ ''|'' @ a')" by (rule arg_cong)
  then have "rev a @ ''|'' @ rev x = rev a' @ ''|'' @ rev x'" by simp
  with cut_first [of "rev a" "rev a'" "rev x" "rev x'"] assms show "x = x' \<and> a = a'" by simp
qed simp

text \<open>With binding ids, session tokens and actions free of the separator (the minted ones are
  hexadecimal) different bindings, sessions, items or actions never share a lease, secret or mutation
  grant entry, whatever the item names contain.\<close>

definition no_bar :: "string \<Rightarrow> bool" where
  "no_bar s \<longleftrightarrow> CHR ''|'' \<notin> set s"

theorem grant_keys_separate:
  assumes "list_all no_bar [b, b', t, t', a, a']"
  shows "(lease_key b t = lease_key b' t') = (b = b' \<and> t = t')
    \<and> (secret_grant_key b t i = secret_grant_key b' t' i') = (b = b' \<and> t = t' \<and> i = i')
    \<and> (plaintext_grant_key t i a = plaintext_grant_key t' i' a') = (t = t' \<and> i = i' \<and> a = a')
    \<and> (mutation_grant_key b t i a = mutation_grant_key b' t' i' a') = (b = b' \<and> t = t' \<and> i = i' \<and> a = a')"
proof -
  from assms have ok: "CHR ''|'' \<notin> set b" "CHR ''|'' \<notin> set b'" "CHR ''|'' \<notin> set t" "CHR ''|'' \<notin> set t'"
    "CHR ''|'' \<notin> set a" "CHR ''|'' \<notin> set a'"
    by (simp_all add: no_bar_def)
  show ?thesis
    unfolding lease_key_def secret_grant_key_def plaintext_grant_key_def mutation_grant_key_def
    by (simp only: cut_first [OF ok(1,2)] cut_first [OF ok(3,4)] cut_last [OF ok(5,6)] simp_thms)
qed

theorem grant_keys_separate_witness:
  "secret_grant_key ''ab'' ''01'' ''x|y'' \<noteq> secret_grant_key ''ab'' ''02'' ''x|y''"
  using grant_keys_separate [of "''ab''" "''ab''" "''01''" "''02''" "''hide''" "''hide''" "''x|y''" "''x|y''"]
  by (simp add: no_bar_def)

definition stale_race :: "access_decision list \<times> access_decision list" where
  "stale_race =
     (let v = sample_vault;
          b1 = [(sample_request, (\<lambda>_. 5), 6)];
          (r1, s1) = authorize_batch_and_consume (\<lambda>s. s) io_ok b1 \<lparr>mem = v, disk = Some v, trail = []\<rparr>;
          (_, s2) = grant_project_lease io_ok (\<lambda>_. 7) (Some ''l9'') ''c'' ''t'' ''session'' 0 (s1\<lparr>mem := v\<rparr>);
          (r3, _) = authorize_batch_and_consume (\<lambda>s. s) io_ok [(sample_request, (\<lambda>_. 8), 9)] s2
      in (projr r1, projr r3))"

text \<open>The single use rests on reading the file first. An operation that writes a handle's memory
  back without reading the file (here a session lease for another binding) restores a once lease that
  another handle had consumed in between, and the lease authorises a second time.\<close>

theorem stale_write_restores_once_grants:
  "list_all ad_allowed (fst stale_race) \<and> length (fst stale_race) = 1
   \<and> list_all ad_allowed (snd stale_race) \<and> length (snd stale_race) = 1"
  by code_simp

end
