(* ===== verification/EnvMap.thy ===== *)
theory EnvMap
  imports Prelude
begin

text \<open>
  \<^verbatim>\<open>internal/envmap/envmap.go\<close>: the destinations of a child environment. Case conversion is
  applied to names that already passed the ASCII pattern.
\<close>

datatype env_error =
    InvalidEnvName string string
  | EnvNameTwice string string string
  | EnvNul string string
  | EnvReserved string
  | EnvEmptyReference string string
  | ExpectedNameValue
  | DuplicateLiteral string

definition name_start :: "char \<Rightarrow> bool" where
  "name_start c = (let n = of_char c :: nat in 65 \<le> n \<and> n \<le> 90 \<or> 97 \<le> n \<and> n \<le> 122 \<or> n = 95)"

definition name_char :: "char \<Rightarrow> bool" where
  "name_char c = (name_start c \<or> (let n = of_char c :: nat in 48 \<le> n \<and> n \<le> 57))"

text \<open>\<open>^[A-Za-z_][A-Za-z0-9_]*$\<close>\<close>

definition env_name :: "string \<Rightarrow> bool" where
  "env_name s = (case s of [] \<Rightarrow> False | c # cs \<Rightarrow> name_start c \<and> list_all name_char cs)"

definition env_names :: "string gomap \<Rightarrow> string list" where
  "env_names m = sort_by (\<lambda>a b. a < b) (map fst m)"

definition check_entry :: "string \<Rightarrow> string gomap \<Rightarrow> string \<Rightarrow> string \<Rightarrow> env_error option" where
  "check_entry channel seen name value =
     (if \<not> env_name name then Some (InvalidEnvName name channel)
      else (case map_of seen name of
          Some previous \<Rightarrow> Some (EnvNameTwice name previous channel)
        | None \<Rightarrow>
            if CHR 0x00 \<in> set value then Some (EnvNul channel name)
            else if channel = ''literal_env''
              then (if prefix ''HASP_'' (ascii_upper name) then Some (EnvReserved name) else None)
            else if trim value = [] then Some (EnvEmptyReference channel name)
            else None))"

fun check_channel :: "string \<Rightarrow> string gomap \<Rightarrow> string list \<Rightarrow> string gomap \<Rightarrow> env_error + string gomap" where
  "check_channel channel values [] seen = Inr seen"
| "check_channel channel values (name # names) seen =
     (case check_entry channel seen name (look [] values name) of
        Some e \<Rightarrow> Inl e
      | None \<Rightarrow> check_channel channel values names (put name channel seen))"

definition validate_env :: "string gomap \<Rightarrow> string gomap \<Rightarrow> string gomap \<Rightarrow> env_error option" where
  "validate_env env files literals =
     (case bind_r (check_channel ''env'' env (env_names env) [])
             (\<lambda>seen. bind_r (check_channel ''files'' files (env_names files) seen)
               (check_channel ''literal_env'' literals (env_names literals))) of
        Inl e \<Rightarrow> Some e | Inr _ \<Rightarrow> None)"

text \<open>\<open>LiteralFlag.Set\<close>, from the flag's map before to its map after.\<close>

definition set_literal :: "string gomap \<Rightarrow> string \<Rightarrow> env_error + string gomap" where
  "set_literal flag raw =
     (case cut_at CHR ''='' raw of
        None \<Rightarrow> Inl ExpectedNameValue
      | Some (name, value) \<Rightarrow>
          (case validate_env [] [] [(name, value)] of
             Some e \<Rightarrow> Inl e
           | None \<Rightarrow> if map_of flag name \<noteq> None then Inl (DuplicateLiteral name) else Inr (put name value flag)))"

fun set_literals :: "string gomap \<Rightarrow> string list \<Rightarrow> env_error + string gomap" where
  "set_literals flag [] = Inr flag"
| "set_literals flag (raw # raws) = bind_r (set_literal flag raw) (\<lambda>flag'. set_literals flag' raws)"

definition literal_flag_string :: "string gomap \<Rightarrow> string" where
  "literal_flag_string flag = join '','' (env_names flag)"

section \<open>Facts\<close>

lemma set_env_names [simp]: "set (env_names m) = fst ` set m"
  by (simp add: env_names_def)

text \<open>What one channel's loop accepts.\<close>

definition entry_ok :: "string \<Rightarrow> string \<Rightarrow> string \<Rightarrow> bool" where
  "entry_ok channel name value \<longleftrightarrow> env_name name \<and> CHR 0x00 \<notin> set value \<and>
     (if channel = ''literal_env'' then \<not> prefix ''HASP_'' (ascii_upper name) else trim value \<noteq> [])"

lemma check_entry_None:
  "check_entry ch seen n v = None \<longleftrightarrow> entry_ok ch n v \<and> map_of seen n = None"
  by (auto simp: check_entry_def entry_ok_def split: option.splits)

lemma check_channel_Inr:
  "distinct names \<Longrightarrow> (\<exists>seen'. check_channel ch m names seen = Inr seen') \<longleftrightarrow>
     (\<forall>n\<in>set names. entry_ok ch n (look [] m n) \<and> map_of seen n = None)"
proof (induction names arbitrary: seen)
  case (Cons n names)
  show ?case
  proof (cases "check_entry ch seen n (look [] m n)")
    case None
    with Cons.IH [of "put n ch seen"] Cons.prems show ?thesis
      by (auto simp: check_entry_None [THEN iffD1, OF None])
  next
    case (Some e)
    then have "\<not> (entry_ok ch n (look [] m n) \<and> map_of seen n = None)" by (auto simp flip: check_entry_None)
    with Some show ?thesis by auto
  qed
qed simp

lemma check_channel_seen:
  "check_channel ch m names seen = Inr seen' \<Longrightarrow>
     map_of seen' n = None \<longleftrightarrow> map_of seen n = None \<and> n \<notin> set names"
  by (induction names arbitrary: seen) (auto split: option.splits)

lemma channel_entries:
  assumes "wf_map m"
  shows "(\<exists>seen'. check_channel ch m (env_names m) seen = Inr seen') \<longleftrightarrow>
     (\<forall>(n, v)\<in>set m. entry_ok ch n v \<and> map_of seen n = None)"
proof -
  have "distinct (env_names m)" using assms by (simp add: env_names_def wf_map_def)
  moreover have "\<forall>x\<in>set m. look [] m (fst x) = snd x"
    using assms by (auto simp: look_def wf_map_def)
  ultimately show ?thesis by (simp add: check_channel_Inr case_prod_unfold cong: ball_cong)
qed

definition no_shared_key :: "'v gomap \<Rightarrow> 'w gomap \<Rightarrow> bool" where
  "no_shared_key a b \<longleftrightarrow> fst ` set a \<inter> fst ` set b = {}"

definition channel_ok :: "string \<Rightarrow> string gomap \<Rightarrow> bool" where
  "channel_ok ch m \<longleftrightarrow> (\<forall>(n, v)\<in>set m. entry_ok ch n v)"

lemma split_entries:
  "(\<forall>(n, v)\<in>set m. entry_ok ch n v \<and> Q n) \<longleftrightarrow> channel_ok ch m \<and> (\<forall>n\<in>fst ` set m. Q n)"
  by (simp add: channel_ok_def split_def ball_conj_distrib)

section \<open>Properties\<close>

text \<open>C39: An environment is accepted exactly when in every channel each name is a plain identifier and
  each value free of NUL, no destination appears in two channels, references are not blank and no
  literal is in the reserved range.\<close>

theorem validate_env_iff:
  assumes "wf_map env" "wf_map files" "wf_map literals"
  shows "validate_env env files literals = None \<longleftrightarrow>
    channel_ok ''env'' env \<and> channel_ok ''files'' files \<and> channel_ok ''literal_env'' literals
    \<and> no_shared_key env files \<and> no_shared_key env literals \<and> no_shared_key files literals"
proof (cases "check_channel ''env'' env (env_names env) []")
  case (Inl e)
  then have "\<not> channel_ok ''env'' env"
    using channel_entries [OF assms(1), of "''env''" "[]"] by (auto simp: channel_ok_def)
  then show ?thesis by (simp add: validate_env_def Inl)
next
  case (Inr s1)
  then have e: "channel_ok ''env'' env"
    using channel_entries [OF assms(1), of "''env''" "[]"] by (auto simp: channel_ok_def)
  have s1: "map_of s1 n = None \<longleftrightarrow> n \<notin> fst ` set env" for n
    using check_channel_seen [OF Inr] by simp
  have f: "(\<exists>s. check_channel ''files'' files (env_names files) s1 = Inr s) \<longleftrightarrow>
      channel_ok ''files'' files \<and> no_shared_key env files"
    unfolding channel_entries [OF assms(2)] split_entries s1 no_shared_key_def by blast
  show ?thesis
  proof (cases "check_channel ''files'' files (env_names files) s1")
    case Inl2: (Inl e)
    with f show ?thesis by (auto simp: validate_env_def Inr)
  next
    case Inr2: (Inr s2)
    have s2: "map_of s2 n = None \<longleftrightarrow> n \<notin> fst ` set env \<and> n \<notin> fst ` set files" for n
      using check_channel_seen [OF Inr2] s1 by simp
    have l: "(\<exists>s. check_channel ''literal_env'' literals (env_names literals) s2 = Inr s) \<longleftrightarrow>
        channel_ok ''literal_env'' literals \<and> no_shared_key env literals \<and> no_shared_key files literals"
      unfolding channel_entries [OF assms(3)] split_entries s2 no_shared_key_def by blast
    have fok: "channel_ok ''files'' files \<and> no_shared_key env files" using f Inr2 by blast
    show ?thesis
    proof (cases "check_channel ''literal_env'' literals (env_names literals) s2")
      case Inl3: (Inl e)
      with l have "\<not> (channel_ok ''literal_env'' literals \<and> no_shared_key env literals \<and> no_shared_key files literals)" by simp
      moreover have "validate_env env files literals \<noteq> None" by (simp add: validate_env_def Inr Inr2 Inl3)
      ultimately show ?thesis by blast
    next
      case Inr3: (Inr s3)
      with l e fok show ?thesis by (simp add: validate_env_def Inr Inr2)
    qed
  qed
qed

theorem validate_env_iff_witness:
  "validate_env [(''TOKEN'', ''ref'')] [] [(''MODE'', ''dev'')] = None
   \<and> validate_env [(''TOKEN'', ''ref'')] [] [(''TOKEN'', ''dev'')] \<noteq> None"
  by (subst (1 2) validate_env_iff)
    (simp_all add: wf_map_def channel_ok_def entry_ok_def no_shared_key_def env_name_def name_start_def
      name_char_def ascii_upper_def)

text \<open>The literal flag keeps every byte after the first equals sign: once a list of
  \<open>NAME=VALUE\<close> arguments is accepted, each name maps to exactly its value, and the map has no
  other names.\<close>

theorem literal_flags_kept:
  assumes "set_literals [] raws = Inr flag" and "map (\<lambda>(n, v). n @ ''='' @ v) kvs = raws"
    and "\<forall>(n, v)\<in>set kvs. CHR ''='' \<notin> set n"
  shows "(\<forall>n. map_of flag n = map_of kvs n) \<and> distinct (map fst kvs)"
proof -
  have gen: "(\<forall>n. map_of flag n = (case map_of kvs n of Some v \<Rightarrow> Some v | None \<Rightarrow> map_of acc n))
      \<and> distinct (map fst kvs) \<and> (\<forall>n\<in>fst ` set kvs. map_of acc n = None)"
    if "set_literals acc (map (\<lambda>(n, v). n @ ''='' @ v) kvs) = Inr flag" "\<forall>(n, v)\<in>set kvs. CHR ''='' \<notin> set n"
    for acc kvs
    using that
  proof (induction kvs arbitrary: acc)
    case (Cons kv kvs)
    obtain n v where kv: "kv = (n, v)" by force
    have "cut_at CHR ''='' (n @ CHR ''='' # v) = Some (n, v)"
      using Cons.prems(2) kv by (intro cut_at_append) auto
    with Cons.prems kv have fresh: "map_of acc n = None"
      and rest: "set_literals (put n v acc) (map (\<lambda>(n, v). n @ ''='' @ v) kvs) = Inr flag"
      by (auto simp: set_literal_def split: option.splits if_splits)
    from Cons.IH [OF rest] Cons.prems(2) show ?case
      using fresh by (auto simp: kv split: option.splits if_splits)
  qed simp
  from gen [of "[]" kvs] assms show ?thesis
    by (auto split: option.splits)
qed
theorem literal_flags_kept_witness:
  "set_literals [] [''A=1=2'', ''B=''] = Inr [(''A'', ''1=2''), (''B'', [])] \<and> map_of [(''A'', ''1=2''), (''B'', [])] ''A'' = Some ''1=2''"
proof -
  have run: "set_literals [] [''A=1=2'', ''B=''] = Inr [(''A'', ''1=2''), (''B'', [])]" by code_simp
  from literal_flags_kept [OF run, of "[(''A'', ''1=2''), (''B'', [])]"] run show ?thesis by simp
qed

end
