(* ===== verification/Documents.thy ===== *)
theory Documents
  imports Vault
begin

text \<open>
  The two documents kept in the vault: \<open>ReplacePolicy\<close> (\<^verbatim>\<open>internal/store/policy.go\<close>) and
  \<open>SetConfigValue\<close> (\<^verbatim>\<open>internal/store/config.go\<close>). Both read the file under the lock, so that
  compare-and-swap on the policy version works across handles.
\<close>

definition get_policy :: "vault \<Rightarrow> policy_document" where
  "get_policy v = normalize_policy_document (v_policy v)"

definition get_config :: "vault \<Rightarrow> config_document" where
  "get_config v = normalize_config_document (v_config v)"

text \<open>The document \<open>ReplacePolicy\<close> stores, stamped with a fresh version.\<close>

definition stamped_policy :: "policy_document \<Rightarrow> string \<Rightarrow> time \<Rightarrow> string \<Rightarrow> policy_document" where
  "stamped_policy next version now updated_by =
     (normalize_policy_document next)\<lparr>pd_version := version, pd_updated_at := now,
        pd_updated_by := (if trim updated_by = [] then ''user'' else trim updated_by)\<rparr>"

definition replace_policy ::
    "io \<Rightarrow> time \<Rightarrow> string option \<Rightarrow> policy_document \<Rightarrow> string \<Rightarrow> bool \<Rightarrow> string \<Rightarrow> sys
      \<Rightarrow> (store_error + policy_document) \<times> sys" where
  "replace_policy io now rnd next expected force updated_by s =
     (case refresh_state io s of
        (Some e, s1) \<Rightarrow> (Inl e, s1)
      | (None, s1) \<Rightarrow>
          let current = get_policy (mem s1);
              cleared = next\<lparr>pd_version := [], pd_updated_at := zero_time, pd_updated_by := []\<rparr>
          in if \<not> force \<and> trim expected \<noteq> pd_version current
               then (Inl (PolicyVersionConflict expected (pd_version current)), s1)
             else (case validate_policy cleared of
                 Some e \<Rightarrow> (Inl (PolicyInvalid e), s1)
               | None \<Rightarrow>
             (case rnd of
                 None \<Rightarrow> (Inl RandomFailed, s1)
               | Some version \<Rightarrow>
                   let doc = stamped_policy cleared version now updated_by;
                       s2 = s1\<lparr>mem := (mem s1)\<lparr>v_policy := doc\<rparr>\<rparr>
                   in (case persist io s2 of
                         (Some e, s3) \<Rightarrow> (Inl e, s3)
                       | (None, s3) \<Rightarrow> (Inr doc, append_audit ''policy.update'' (pd_updated_by doc)
                            [(''version'', DStr (pd_version doc)), (''rule_count'', DInt (int (length (pd_rules doc))))] s3)))))"

definition set_config_value ::
    "io \<Rightarrow> string \<Rightarrow> config_value \<Rightarrow> string list \<Rightarrow> sys \<Rightarrow> (store_error + config_document) \<times> sys" where
  "set_config_value io raw value actors s =
     (let key = trim raw;
          actor = (case actors of a # _ \<Rightarrow> if trim a \<noteq> [] then trim a else ''user'' | [] \<Rightarrow> ''user'')
      in case map_of config_specs key of
           None \<Rightarrow> (Inl (ConfigError (ConfigKeyNotFound key)), s)
         | Some spec \<Rightarrow> (case cs_validate spec value of
             Inl e \<Rightarrow> (Inl (ConfigError e), s)
           | Inr v \<Rightarrow> (case refresh_state io s of
               (Some e, s1) \<Rightarrow> (Inl e, s1)
             | (None, s1) \<Rightarrow>
                 let s2 = s1\<lparr>mem := (mem s1)\<lparr>v_config := put key v (get_config (mem s1))\<rparr>\<rparr>
                 in (case persist io s2 of
                       (Some e, s3) \<Rightarrow> (Inl e, s3)
                     | (None, s3) \<Rightarrow> (let s4 = append_audit ''config.update'' actor [(''key'', DStr key)] s3
                                     in (Inr (get_config (mem s4)), s4))))))"

section \<open>Policy versions\<close>

lemma validate_policy_stamp [simp]:
  "validate_policy (d\<lparr>pd_version := x, pd_updated_at := y, pd_updated_by := z\<rparr>) = validate_policy d"
  by (simp add: validate_policy_def normalize_policy_document_def)

text \<open>The outcome of a successful replacement, and the policy in the file after any one.\<close>

lemma replace_policy_InrD:
  assumes "replace_policy io now rnd next expected force by_whom s = (Inr doc, s')"
  shows "\<exists>d version. disk s = Some d \<and> rnd = Some version \<and> pd_version doc = version \<and> pd_updated_at doc = now
      \<and> pd_rules doc = pd_rules (normalize_policy_document next) \<and> validate_policy next = None
      \<and> (force \<or> trim expected = pd_version (get_policy (read_state d)))
      \<and> disk s' = Some ((read_state d)\<lparr>v_policy := doc\<rparr>) \<and> mem s' = (read_state d)\<lparr>v_policy := doc\<rparr>
      \<and> trim (pd_updated_by doc) = pd_updated_by doc \<and> pd_updated_by doc \<noteq> []"
proof -
  obtain e s1 where ref: "refresh_state io s = (e, s1)" by force
  note r = refresh_eqE [OF ref]
  from assms ref have e: "e = None" by (cases e) (auto simp: replace_policy_def)
  with r obtain d where d: "disk s = Some d" "mem s1 = read_state d" by auto
  let ?c = "next\<lparr>pd_version := [], pd_updated_at := zero_time, pd_updated_by := []\<rparr>"
  from assms ref e d have guard: "force \<or> trim expected = pd_version (get_policy (read_state d))"
    by (auto simp: replace_policy_def Let_def split: if_splits)
  with assms ref e d have valid: "validate_policy ?c = None"
    by (auto simp: replace_policy_def Let_def split: if_splits option.splits)
  with assms ref e d guard obtain version where rnd: "rnd = Some version"
    by (cases rnd) (auto simp: replace_policy_def Let_def split: if_splits)
  let ?doc = "stamped_policy ?c version now by_whom"
  obtain ep s3 where p: "persist io (s1\<lparr>mem := (read_state d)\<lparr>v_policy := ?doc\<rparr>\<rparr>) = (ep, s3)" by force
  have "ep = None \<and> doc = ?doc \<and> mem s' = mem s3 \<and> disk s' = disk s3"
    using assms ref e d guard valid rnd p
    by (cases ep) (auto simp: replace_policy_def Let_def)
  with persist_eqE [OF p] d rnd guard valid show ?thesis
    by (auto simp: stamped_policy_def normalize_policy_document_def)
qed
section \<open>Properties\<close>

text \<open>C31: A stored policy reads back as it was returned, and its version protects it: any later unforced
  replacement that expects the version the first one expected fails, from whichever handle, with a
  version conflict once it has read the file, and changes nothing in the file.\<close>

theorem policy_compare_and_swap:
  assumes "replace_policy io now rnd next expected force by_whom s = (Inr doc, s')"
    and "rnd = Some version" and "visible version" and "version \<noteq> []" and "version \<noteq> trim expected"
  shows "map_option (get_policy \<circ> read_state) (disk s') = Some doc \<and>
    (case replace_policy io2 now2 rnd2 next2 expected False by2 (s'\<lparr>mem := m2\<rparr>) of
       (Inr _, _) \<Rightarrow> False
     | (Inl e, s2) \<Rightarrow> disk s2 = disk s' \<and> (e = PolicyVersionConflict expected version \<or> e = ReadFailed))"
proof -
  from replace_policy_InrD [OF assms(1)] assms(2) obtain d where
    doc: "pd_version doc = version" "pd_rules doc = pd_rules (normalize_policy_document next)"
    "trim (pd_updated_by doc) = pd_updated_by doc" "pd_updated_by doc \<noteq> []"
    and disk: "disk s' = Some ((read_state d)\<lparr>v_policy := doc\<rparr>)" by auto
  have norm: "normalize_policy_document doc = doc"
  proof -
    have "map normalize_rule (pd_rules doc) = pd_rules doc"
      by (simp add: doc(2) normalize_policy_document_def comp_def)
    with doc assms(3,4) show ?thesis by (simp add: normalize_policy_document_def)
  qed
  then have read: "get_policy (read_state ((read_state d)\<lparr>v_policy := doc\<rparr>)) = doc"
    by (simp add: get_policy_def read_state_def)
  then show ?thesis
    using assms(5) doc(1) by (simp add: disk replace_policy_def refresh_state_def Let_def)
qed

definition sample_documents :: sys where
  "sample_documents = \<lparr>mem = empty_vault, disk = Some empty_vault, trail = []\<rparr>"

theorem policy_compare_and_swap_witness:
  "\<exists>doc s'. replace_policy io_ok 5 (Some ''a1'') sample_policy ''0'' False ''ops'' sample_documents = (Inr doc, s') \<and>
     map_option (get_policy \<circ> read_state) (disk s') = Some doc"
proof -
  have valid: "validate_policy sample_policy = None"
    unfolding validate_policy_def
    by (simp add: sample_policy_def sample_rule_def normalize_policy_document_def normalize_rule_def check_rule_def)
  obtain r s' where run: "replace_policy io_ok 5 (Some ''a1'') sample_policy ''0'' False ''ops'' sample_documents = (r, s')"
    by force
  then obtain doc where r: "r = Inr doc"
    by (auto simp: replace_policy_def sample_documents_def refresh_state_def io_ok_def get_policy_def read_state_def
        empty_vault_def normalize_policy_document_def persist_def valid Let_def)
  from policy_compare_and_swap [OF run [unfolded r], of "''a1''" io_ok 6 "Some ''a2''" sample_policy "''x''" empty_vault]
  show ?thesis using run r by auto
qed

text \<open>A successful \<open>SetConfigValue\<close> leaves in the file a configuration in which the key reads as the
  accepted value and every other key reads as in the file before; when it fails before the write the
  file is unchanged.\<close>

theorem set_config_persists:
  "case set_config_value io key value actors s of
     (Inr doc, s') \<Rightarrow> (\<exists>d d' spec v. disk s = Some d \<and> disk s' = Some d' \<and> map_of config_specs (trim key) = Some spec
         \<and> cs_validate spec value = Inr v \<and> doc = get_config d'
         \<and> (\<forall>k. get_config_value k (v_config (read_state d'))
                = (if trim k = trim key then Inr v else get_config_value k (v_config (read_state d)))))
   | (Inl (ConfigError e), s') \<Rightarrow> s' = s
   | (Inl _, s') \<Rightarrow> trail s' = trail s"
proof (cases "map_of config_specs (trim key)")
  case None
  then show ?thesis by (simp add: set_config_value_def)
next
  case (Some spec)
  show ?thesis
  proof (cases "cs_validate spec value")
    case (Inl e)
    with Some show ?thesis by (simp add: set_config_value_def)
  next
    case (Inr v)
    obtain e s1 where ref: "refresh_state io s = (e, s1)" by force
    note r = refresh_eqE [OF ref]
    have no_config: "e = Some x \<Longrightarrow> x = VaultNotInitialized \<or> x = ReadFailed" for x
      using ref by (auto simp: refresh_state_def split: option.splits if_splits)
    show ?thesis
    proof (cases e)
      case (Some x)
      with no_config [of x] r(2) show ?thesis
        using \<open>map_of config_specs (trim key) = Some spec\<close> Inr ref by (auto simp: set_config_value_def)
    next
      case None
      with r obtain d where d: "disk s = Some d" "mem s1 = read_state d" by auto
      let ?v = "(read_state d)\<lparr>v_config := put (trim key) v (get_config (read_state d))\<rparr>"
      obtain ep s3 where p: "persist io (s1\<lparr>mem := ?v\<rparr>) = (ep, s3)" by force
      note q = persist_eqE [OF p]
      have err: "ep = Some x \<Longrightarrow> x = VaultNotInitialized \<or> x = ReadFailed \<or> x = WriteFailed" for x
        using p by (auto simp: persist_def split: option.splits if_splits write_outcome.splits)
      show ?thesis
      proof (cases ep)
        case (Some x)
        with err [of x] q(2) r(2) show ?thesis
          using \<open>map_of config_specs (trim key) = Some spec\<close> Inr ref None d p
          by (auto simp: set_config_value_def)
      next
        case None2: None
        have ok: "doc_ok (put (trim key) v (get_config (read_state d)))"
          unfolding get_config_def using doc_ok_put [OF doc_ok_normalize Some Inr] .
        have norm: "normalize_config_document (v_config (read_state d)) = v_config (read_state d)"
          by (simp add: read_state_def normalize_ok doc_ok_normalize)
        have cfg: "v_config (read_state ?v) = put (trim key) v (get_config (read_state d))"
          using normalize_ok(2) [OF ok] by (simp add: read_state_def)
        then have "\<forall>k. get_config_value k (v_config (read_state ?v))
            = (if trim k = trim key then Inr v else get_config_value k (v_config (read_state d)))"
          by (auto simp: get_config_value_def get_config_def normalize_ok(1) [OF ok [unfolded get_config_def]])
        with d q None2 Some Inr ref None p show ?thesis
          by (auto simp: set_config_value_def Let_def)
      qed
    qed
  qed
qed

end
