(* ===== verification/Manifest.thy ===== *)
theory Manifest
  imports Vault EnvMap
begin

text \<open>
  \<^verbatim>\<open>internal/store/manifest.go\<close> and the manifest types of \<^verbatim>\<open>binding.go\<close>: validation of a
  repository manifest, expansion of one of its targets, and the drift of a target against the
  review recorded in the vault. The file system (is a path inside the project root after
  resolving links) is the parameter \<open>inside\<close>; SHA-256 of the JSON encoding of a value is the
  parameter \<open>hash\<close>. Case conversion is applied to names, which are ASCII.
\<close>

section \<open>The manifest\<close>

record manifest_project =
  mp_name :: string
  mp_description :: string

record manifest_reference =
  mf_alias :: string
  mf_item :: string

record manifest_requirement =
  mq_ref :: string
  mq_kind :: string
  mq_required :: bool
  mq_classification :: string
  mq_description :: string

record manifest_credential_set =
  mcs_name :: string
  mcs_kind :: string
  mcs_description :: string
  mcs_members :: "string gomap"

record manifest_delivery =
  md_as :: string
  md_name :: string
  md_ref :: string
  md_from_set :: string
  md_role :: string
  md_output :: string

record manifest_example =
  me_format :: string
  me_path :: string

record manifest_target =
  mt_name :: string
  mt_description :: string
  mt_root :: string
  mt_command :: "string list"
  mt_literal_env :: "string gomap"
  mt_delivery :: "manifest_delivery list"
  mt_examples :: "manifest_example list"

record repo_manifest =
  rm_version :: string
  rm_project :: manifest_project
  rm_references :: "manifest_reference list"
  rm_requirements :: "manifest_requirement list"
  rm_credential_sets :: "manifest_credential_set list"
  rm_targets :: "manifest_target list"
  rm_default_capture_policy :: string

datatype manifest_error =
    VersionRequired | UnsupportedVersion string
  | RefRequired | DuplicateRef string | UnknownKind string | RequirementClass string | NotDeclared string
  | UnsafeSetName string | DuplicateSetName string | UnknownSetKind string | NoMembers string
  | UnsafeRole string string | UnknownRequirement string | RoleRequired string | RoleUnsupported string
  | RoleKind string | RoleClassification string
  | UnsafeTargetName string | DuplicateTargetName string | BadPath string string
  | UnsafeArgument string | TargetEnv string env_error | UnsafeLiteral string | DuplicateDelivery string
  | UnknownFormat string | UnsafeDestination string | BothRefAndSet | NoRef | SetAndRole
  | UnknownSet string | UnknownSetRole string | FileDelivery string | BrowserSession string
  | OutputNotAllowed string | UnknownExample string | UnknownTarget string | ManifestUnreadable

section \<open>Names and references\<close>

definition lower_digit :: "char \<Rightarrow> bool" where
  "lower_digit c = (let n = of_char c :: nat in 97 \<le> n \<and> n \<le> 122 \<or> 48 \<le> n \<and> n \<le> 57)"

text \<open>\<open>^[a-z0-9][a-z0-9._-]{0,63}$\<close> and \<open>^[a-z][a-z0-9_]{0,63}$\<close>\<close>

definition target_name_ok :: "string \<Rightarrow> bool" where
  "target_name_ok s = (case s of [] \<Rightarrow> False
     | c # cs \<Rightarrow> lower_digit c \<and> length cs \<le> 63 \<and> list_all (\<lambda>c. lower_digit c \<or> c \<in> set ''._-'') cs)"

definition role_ok :: "string \<Rightarrow> bool" where
  "role_ok s = (case s of [] \<Rightarrow> False
     | c # cs \<Rightarrow> (let n = of_char c :: nat in 97 \<le> n \<and> n \<le> 122) \<and> length cs \<le> 63
          \<and> list_all (\<lambda>c. lower_digit c \<or> c = CHR ''_'') cs)"

definition dangerous_destination :: "string \<Rightarrow> bool" where
  "dangerous_destination name =
     (let upper = ascii_upper (trim name) in
      upper \<in> set [''PATH'', ''LD_PRELOAD'', ''NODE_OPTIONS'', ''PYTHONPATH'', ''RUBYOPT'', ''SSH_AUTH_SOCK'', ''HOME'', ''SHELL'']
      \<or> prefix ''DYLD_'' upper \<or> prefix ''GIT_'' upper \<or> prefix ''HASP_'' upper)"

text \<open>\<open>unicode.IsControl\<close> on the UTF-8 encoding: the C0 range, DEL, and the C1 range, which is
  encoded as the byte 0xC2 followed by 0x80 to 0x9F.\<close>

fun contains_control :: "string \<Rightarrow> bool" where
  "contains_control [] = False"
| "contains_control (c # cs) =
     ((of_char c :: nat) < 32 \<or> (of_char c :: nat) = 127
      \<or> (c = CHR 0xC2 \<and> (case cs of [] \<Rightarrow> False | d # _ \<Rightarrow> 128 \<le> (of_char d :: nat) \<and> of_char d < (160 :: nat)))
      \<or> contains_control cs)"

definition parse_named_reference :: "string \<Rightarrow> string option" where
  "parse_named_reference reference =
     (case trim reference of c # rest \<Rightarrow> if c = CHR ''@'' then Some (trim rest) else None | [] \<Rightarrow> None)"

definition named_reference :: "string \<Rightarrow> string" where
  "named_reference name = (if trim name = [] then [] else CHR ''@'' # trim name)"

definition reference_declared :: "repo_manifest \<Rightarrow> string \<Rightarrow> bool" where
  "reference_declared m raw =
     (let ref = trim raw in
      if ref = [] then False
      else (case parse_named_reference ref of
          Some name \<Rightarrow> list_ex (\<lambda>r. trim (mf_item r) = name) (rm_references m)
        | None \<Rightarrow> list_ex (\<lambda>r. trim (mf_alias r) = ref) (rm_references m)))"

definition has_extended_fields :: "repo_manifest \<Rightarrow> bool" where
  "has_extended_fields m \<longleftrightarrow> rm_requirements m \<noteq> [] \<or> rm_credential_sets m \<noteq> [] \<or> rm_targets m \<noteq> []
     \<or> trim (mp_name (rm_project m)) \<noteq> [] \<or> trim (mp_description (rm_project m)) \<noteq> []"

section \<open>Validation\<close>

text \<open>Loops return the table they build or the first error.\<close>

definition check_requirement ::
    "repo_manifest \<Rightarrow> manifest_requirement gomap \<Rightarrow> manifest_requirement \<Rightarrow> manifest_error + manifest_requirement gomap" where
  "check_requirement m reqs req =
     (let ref = trim (mq_ref req) in
      if ref = [] then Inl RefRequired
      else if map_of reqs ref \<noteq> None then Inl (DuplicateRef ref)
      else if mq_kind req \<noteq> ''kv'' \<and> mq_kind req \<noteq> ''file'' then Inl (UnknownKind ref)
      else if trim (mq_classification req) \<notin> {''secret'', ''public_config'', ''browser_session''}
        then Inl (RequirementClass ref)
      else if \<not> reference_declared m ref then Inl (NotDeclared ref)
      else Inr (put ref req reqs))"

fun check_requirements ::
    "repo_manifest \<Rightarrow> manifest_requirement list \<Rightarrow> manifest_requirement gomap \<Rightarrow> manifest_error + manifest_requirement gomap" where
  "check_requirements m [] reqs = Inr reqs"
| "check_requirements m (r # rs) reqs = bind_r (check_requirement m reqs r) (check_requirements m rs)"

definition check_member :: "string \<Rightarrow> manifest_requirement gomap \<Rightarrow> string \<times> string \<Rightarrow> manifest_error option" where
  "check_member name reqs member =
     (if \<not> role_ok (trim (fst member)) then Some (UnsafeRole (trim (fst member)) name)
      else if map_of reqs (trim (snd member)) = None then Some (UnknownRequirement (trim (snd member)))
      else None)"

definition check_set_member ::
    "string \<Rightarrow> string \<Rightarrow> manifest_requirement gomap \<Rightarrow> string \<Rightarrow> string \<Rightarrow> manifest_error option" where
  "check_set_member role ref reqs kind classification =
     (case map_of reqs (trim ref) of
        None \<Rightarrow> Some (UnknownRequirement ref)
      | Some req \<Rightarrow>
          if mq_kind req \<noteq> kind then Some (RoleKind role)
          else if trim (mq_classification req) \<noteq> classification then Some (RoleClassification role)
          else None)"

definition check_optional_member ::
    "string \<Rightarrow> string \<Rightarrow> manifest_requirement gomap \<Rightarrow> string \<Rightarrow> string \<Rightarrow> manifest_error option" where
  "check_optional_member role ref reqs kind classification =
     (if trim ref = [] then None else check_set_member role ref reqs kind classification)"

definition first_error :: "'e option list \<Rightarrow> 'e option" where
  "first_error es = check_all (\<lambda>e. e) es"

definition check_set_schema ::
    "string \<Rightarrow> string \<Rightarrow> manifest_credential_set \<Rightarrow> manifest_requirement gomap \<Rightarrow> manifest_error option" where
  "check_set_schema name kind cset reqs =
     (let member = look [] (mcs_members cset) in
      if kind \<noteq> ''google_oauth_client'' then None
      else first_error
        [check_all (\<lambda>role. if trim (member role) = [] then Some (RoleRequired role) else None) [''client_id'', ''client_secret''],
         check_all (\<lambda>(role, ref). if trim role \<notin> {''client_id'', ''client_secret'', ''redirect_uri''}
                      then Some (RoleUnsupported role) else None) (mcs_members cset),
         check_set_member ''client_id'' (member ''client_id'') reqs ''kv'' ''public_config'',
         check_set_member ''client_secret'' (member ''client_secret'') reqs ''kv'' ''secret'',
         check_optional_member ''redirect_uri'' (member ''redirect_uri'') reqs ''kv'' ''public_config''])"

definition unsafe_name :: "string \<Rightarrow> bool" where
  "unsafe_name name \<longleftrightarrow> \<not> target_name_ok name \<or> CHR ''/'' \<in> set name \<or> CHR 0x5C \<in> set name \<or> contains_control name"

definition check_credential_set ::
    "manifest_requirement gomap \<Rightarrow> manifest_credential_set gomap \<Rightarrow> manifest_credential_set
      \<Rightarrow> manifest_error + manifest_credential_set gomap" where
  "check_credential_set reqs sets cset =
     (let name = trim (mcs_name cset); lower = ascii_lower name; kind = trim (mcs_kind cset) in
      if unsafe_name name then Inl (UnsafeSetName (mcs_name cset))
      else if map_of sets lower \<noteq> None then Inl (DuplicateSetName name)
      else if kind \<noteq> ''generic'' \<and> kind \<noteq> ''google_oauth_client'' then Inl (UnknownSetKind name)
      else if mcs_members cset = [] then Inl (NoMembers name)
      else (case check_all (check_member name reqs) (mcs_members cset) of
          Some e \<Rightarrow> Inl e
        | None \<Rightarrow> (case check_set_schema name kind cset reqs of
            Some e \<Rightarrow> Inl e
          | None \<Rightarrow> Inr (put lower \<lparr>mcs_name = name, mcs_kind = kind, mcs_description = trim (mcs_description cset),
                                  mcs_members = mcs_members cset\<rparr> sets))))"

fun check_credential_sets ::
    "manifest_requirement gomap \<Rightarrow> manifest_credential_set list \<Rightarrow> manifest_credential_set gomap
      \<Rightarrow> manifest_error + manifest_credential_set gomap" where
  "check_credential_sets reqs [] sets = Inr sets"
| "check_credential_sets reqs (c # cs) sets = bind_r (check_credential_set reqs sets c) (check_credential_sets reqs cs)"

definition resolve_delivery_ref ::
    "manifest_delivery \<Rightarrow> manifest_credential_set gomap \<Rightarrow> manifest_error + string" where
  "resolve_delivery_ref d sets =
     (let ref = trim (md_ref d); from_set = trim (md_from_set d); role = trim (md_role d) in
      if ref \<noteq> [] then (if from_set \<noteq> [] \<or> role \<noteq> [] then Inl BothRefAndSet else Inr ref)
      else if from_set = [] \<and> role = [] then Inl NoRef
      else if from_set = [] \<or> role = [] then Inl SetAndRole
      else (case map_of sets (ascii_lower from_set) of
          None \<Rightarrow> Inl (UnknownSet from_set)
        | Some cset \<Rightarrow> (let r = trim (look [] (mcs_members cset) role) in
            if r = [] then Inl (UnknownSetRole role) else Inr r)))"

definition check_delivery ::
    "manifest_delivery \<Rightarrow> manifest_requirement gomap \<Rightarrow> manifest_credential_set gomap \<Rightarrow> manifest_error option" where
  "check_delivery d reqs sets =
     (let as = trim (md_as d); name = trim (md_name d) in
      if as \<noteq> ''env'' \<and> as \<noteq> ''file'' \<and> as \<noteq> ''xcconfig'' then Some (UnknownFormat (md_as d))
      else if \<not> env_name name \<or> dangerous_destination name then Some (UnsafeDestination (md_name d))
      else (case resolve_delivery_ref d sets of
          Inl e \<Rightarrow> Some e
        | Inr ref \<Rightarrow> (case map_of reqs ref of
            None \<Rightarrow> Some (UnknownRequirement ref)
          | Some req \<Rightarrow>
              if mq_kind req = ''file'' \<and> as \<noteq> ''file'' then Some (FileDelivery ref)
              else if trim (mq_classification req) = ''browser_session'' then Some (BrowserSession ref)
              else None)))"

text \<open>\<open>validateManifestRelativePath\<close>: \<open>inside\<close> says whether the cleaned path stays below the
  project root once links are resolved (true when there is no root).\<close>

definition check_relative_path ::
    "(string \<Rightarrow> bool) \<Rightarrow> string \<Rightarrow> string \<Rightarrow> bool \<Rightarrow> manifest_error option" where
  "check_relative_path inside raw label required =
     (let value = trim raw; c = path_clean value in
      if value = [] then (if required then Some (BadPath label value) else None)
      else if hd value = CHR ''/'' then Some (BadPath label value)
      else if c = ''.'' \<and> required then Some (BadPath label value)
      else if c = ''..'' \<or> prefix ''../'' c then Some (BadPath label value)
      else if inside c then None else Some (BadPath label value))"

text \<open>The three loops over a target, with the set of destination names taken so far.\<close>

fun check_literals :: "string list \<Rightarrow> string list \<Rightarrow> manifest_error + string list" where
  "check_literals taken [] = Inr taken"
| "check_literals taken (key # keys) =
     (if dangerous_destination key then Inl (UnsafeLiteral key)
      else if ascii_lower key \<in> set taken then Inl (DuplicateDelivery key)
      else check_literals (ascii_lower key # taken) keys)"

fun check_deliveries ::
    "(string \<Rightarrow> bool) \<Rightarrow> manifest_requirement gomap \<Rightarrow> manifest_credential_set gomap \<Rightarrow> string list
      \<Rightarrow> manifest_delivery list \<Rightarrow> manifest_error option" where
  "check_deliveries inside reqs sets taken [] = None"
| "check_deliveries inside reqs sets taken (d # ds) =
     (case check_delivery d reqs sets of
        Some e \<Rightarrow> Some e
      | None \<Rightarrow>
          let key = ascii_lower (trim (md_name d)) in
          if key \<in> set taken then Some (DuplicateDelivery (md_name d))
          else if trim (md_output d) \<noteq> [] \<and> md_as d \<noteq> ''xcconfig'' then Some (OutputNotAllowed (md_name d))
          else (case (if trim (md_output d) \<noteq> [] then check_relative_path inside (md_output d) ''delivery output'' True else None) of
              Some e \<Rightarrow> Some e
            | None \<Rightarrow> check_deliveries inside reqs sets (key # taken) ds))"

definition check_example :: "(string \<Rightarrow> bool) \<Rightarrow> manifest_example \<Rightarrow> manifest_error option" where
  "check_example inside e =
     (if trim (me_format e) \<noteq> ''env'' \<and> trim (me_format e) \<noteq> ''xcconfig'' then Some (UnknownExample (me_format e))
      else check_relative_path inside (me_path e) ''example path'' True)"

definition check_target ::
    "(string \<Rightarrow> bool) \<Rightarrow> manifest_requirement gomap \<Rightarrow> manifest_credential_set gomap \<Rightarrow> string list
      \<Rightarrow> manifest_target \<Rightarrow> manifest_error + string list" where
  "check_target inside reqs sets names t =
     (let name = trim (mt_name t); lower = ascii_lower name in
      if unsafe_name name then Inl (UnsafeTargetName (mt_name t))
      else if lower \<in> set names then Inl (DuplicateTargetName name)
      else (case first_error
          [check_relative_path inside (mt_root t) ''target root'' False,
           check_all (\<lambda>arg. if trim arg = [] \<or> contains_control arg then Some (UnsafeArgument name) else None) (mt_command t),
           map_option (TargetEnv name) (validate_env [] [] (mt_literal_env t))] of
         Some e \<Rightarrow> Inl e
       | None \<Rightarrow>
      (case check_literals [] (map fst (mt_literal_env t)) of
         Inl e \<Rightarrow> Inl e
       | Inr taken \<Rightarrow>
      (case first_error [check_deliveries inside reqs sets taken (mt_delivery t), check_all (check_example inside) (mt_examples t)] of
         Some e \<Rightarrow> Inl e
       | None \<Rightarrow> Inr (lower # names)))))"

fun check_targets ::
    "(string \<Rightarrow> bool) \<Rightarrow> manifest_requirement gomap \<Rightarrow> manifest_credential_set gomap \<Rightarrow> manifest_target list
      \<Rightarrow> string list \<Rightarrow> manifest_error + string list" where
  "check_targets inside reqs sets [] names = Inr names"
| "check_targets inside reqs sets (t # ts) names =
     bind_r (check_target inside reqs sets names t) (check_targets inside reqs sets ts)"

definition check_version :: "repo_manifest \<Rightarrow> manifest_error option" where
  "check_version m =
     (if trim (rm_version m) = [] then (if has_extended_fields m then Some VersionRequired else None)
      else if trim (rm_version m) \<noteq> ''v1'' then Some (UnsupportedVersion (rm_version m)) else None)"

definition validate_manifest :: "(string \<Rightarrow> bool) \<Rightarrow> repo_manifest \<Rightarrow> manifest_error option" where
  "validate_manifest inside m =
     (case check_version m of
        Some e \<Rightarrow> Some e
      | None \<Rightarrow>
          (case bind_r (check_requirements m (rm_requirements m) [])
                  (\<lambda>reqs. bind_r (check_credential_sets reqs (rm_credential_sets m) [])
                    (\<lambda>sets. check_targets inside reqs sets (rm_targets m) [])) of
             Inl e \<Rightarrow> Some e | Inr _ \<Rightarrow> None))"

section \<open>Lookup and expansion\<close>

definition manifest_target_named :: "repo_manifest \<Rightarrow> string \<Rightarrow> manifest_target option" where
  "manifest_target_named m raw = find (\<lambda>t. mt_name t = trim raw) (rm_targets m)"

definition manifest_requirement_for :: "repo_manifest \<Rightarrow> string \<Rightarrow> manifest_requirement option" where
  "manifest_requirement_for m raw = find (\<lambda>r. mq_ref r = trim raw) (rm_requirements m)"

definition credential_set_named :: "repo_manifest \<Rightarrow> string \<Rightarrow> manifest_credential_set option" where
  "credential_set_named m raw = find (\<lambda>c. ascii_lower (mcs_name c) = ascii_lower (trim raw)) (rm_credential_sets m)"

definition delivery_credential_set :: "repo_manifest \<Rightarrow> manifest_delivery \<Rightarrow> manifest_credential_set option" where
  "delivery_credential_set m d = (if trim (md_from_set d) = [] then None else credential_set_named m (trim (md_from_set d)))"

text \<open>\<open>DeliveryRef\<close>; its boolean is that the reference is not empty.\<close>

definition delivery_ref :: "repo_manifest \<Rightarrow> manifest_delivery \<Rightarrow> string" where
  "delivery_ref m d =
     (if trim (md_ref d) \<noteq> [] then trim (md_ref d)
      else (case delivery_credential_set m d of
          None \<Rightarrow> [] | Some cset \<Rightarrow> trim (look [] (mcs_members cset) (trim (md_role d)))))"

definition item_name_for_ref :: "repo_manifest \<Rightarrow> string \<Rightarrow> string option" where
  "item_name_for_ref m raw =
     (let ref = trim raw;
          by_alias = map_option (\<lambda>r. trim (mf_item r)) (find (\<lambda>r. trim (mf_alias r) = ref) (rm_references m))
      in case parse_named_reference ref of
           Some name \<Rightarrow> if name \<noteq> [] then Some name else by_alias
         | None \<Rightarrow> by_alias)"

record target_expansion =
  te_name :: string
  te_root :: string
  te_hash :: string
  te_command :: "string list"
  te_literal_env :: "string gomap"
  te_env :: "string gomap"
  te_files :: "string gomap"
  te_xcconfig :: "string gomap"
  te_outputs :: "string gomap"
  te_refs :: "string list"
  te_destinations :: "string list"
  te_credential_sets :: "string list"

text \<open>One round of the loop over the deliveries.\<close>

definition expand_delivery :: "repo_manifest \<Rightarrow> manifest_delivery \<Rightarrow> target_expansion \<Rightarrow> target_expansion" where
  "expand_delivery m d e =
     (let name = trim (md_name d); ref = delivery_ref m d;
          e1 = (case delivery_credential_set m d of
                  Some cset \<Rightarrow> e\<lparr>te_credential_sets := te_credential_sets e @ [mcs_name cset]\<rparr> | None \<Rightarrow> e);
          e2 = (if md_as d = ''env'' then e1\<lparr>te_env := put name ref (te_env e1)\<rparr>
                else if md_as d = ''file'' then e1\<lparr>te_files := put name ref (te_files e1)\<rparr>
                else if md_as d = ''xcconfig'' then
                  (let e' = e1\<lparr>te_xcconfig := put name ref (te_xcconfig e1)\<rparr> in
                   if trim (md_output d) \<noteq> [] then e'\<lparr>te_outputs := put name (trim (md_output d)) (te_outputs e')\<rparr> else e')
                else e1)
      in e2\<lparr>te_refs := te_refs e2 @ [ref], te_destinations := te_destinations e2 @ [name]\<rparr>)"

definition sorted_compact :: "string list \<Rightarrow> string list" where
  "sorted_compact xs = remdups_adj (sort_strings xs)"

definition start_expansion :: "string \<Rightarrow> manifest_target \<Rightarrow> target_expansion" where
  "start_expansion hash t =
     \<lparr>te_name = mt_name t, te_root = mt_root t, te_hash = hash, te_command = mt_command t,
      te_literal_env = mt_literal_env t, te_env = [], te_files = [], te_xcconfig = [], te_outputs = [], te_refs = [],
      te_destinations = map fst (mt_literal_env t), te_credential_sets = []\<rparr>"

text \<open>\<open>ExpandManifestTarget\<close>, from the loaded manifest and the hash of its bytes.\<close>

definition expand_target :: "(repo_manifest \<times> string) option \<Rightarrow> string \<Rightarrow> manifest_error + target_expansion" where
  "expand_target loaded name =
     (case loaded of
        None \<Rightarrow> Inl ManifestUnreadable
      | Some (m, hash) \<Rightarrow> (case manifest_target_named m name of
          None \<Rightarrow> Inl (UnknownTarget name)
        | Some t \<Rightarrow>
            let e = fold (expand_delivery m) (mt_delivery t) (start_expansion hash t)
            in Inr (e\<lparr>te_refs := sorted_compact (te_refs e), te_destinations := sorted_compact (te_destinations e),
                      te_credential_sets := sorted_compact (te_credential_sets e)\<rparr>)))"

section \<open>Reviews and drift\<close>

definition execution_root :: "target_expansion \<Rightarrow> string \<Rightarrow> string" where
  "execution_root e project_root =
     (let t = trim (te_root e) in
      if t = [] \<or> t = ''.'' then project_root else path_clean (project_root @ ''/'' @ path_clean t))"

definition map_entries :: "string \<Rightarrow> string gomap \<Rightarrow> string list" where
  "map_entries pre m = map (\<lambda>(k, v). pre @ '':'' @ trim k @ ''='' @ trim v) m"

definition string_map_signature :: "string gomap \<Rightarrow> string list" where
  "string_map_signature m = sort_strings (map (\<lambda>(k, v). trim k @ ''='' @ trim v) m)"

definition delivery_signature :: "(string gomap \<Rightarrow> string) \<Rightarrow> target_expansion \<Rightarrow> string list" where
  "delivery_signature hash_map e =
     sort_strings ((if te_literal_env e \<noteq> [] then [''literal_env:'' @ hash_map (te_literal_env e)] else [])
       @ map_entries ''env'' (te_env e) @ map_entries ''file'' (te_files e) @ map_entries ''xcconfig'' (te_xcconfig e))"

definition expansion_signature ::
    "(string list \<Rightarrow> string) \<Rightarrow> (string gomap \<Rightarrow> string) \<Rightarrow> target_expansion \<Rightarrow> manifest_signature" where
  "expansion_signature hash hash_map e =
     \<lparr>ms_command = hash (te_command e), ms_refs = hash (te_refs e),
      ms_delivery = hash (delivery_signature hash_map e), ms_outputs = hash (string_map_signature (te_outputs e))\<rparr>"

definition review_key :: "string \<Rightarrow> string \<Rightarrow> string" where
  "review_key proj name = proj @ CHR 0x00 # trim name"

record manifest_drift =
  dr_known :: bool
  dr_changed :: bool
  dr_command_changed :: bool
  dr_refs_changed :: bool
  dr_delivery_changed :: bool
  dr_outputs_changed :: bool
  dr_previous_hash :: string
  dr_current_hash :: string

definition no_drift :: manifest_drift where
  "no_drift = \<lparr>dr_known = False, dr_changed = False, dr_command_changed = False, dr_refs_changed = False,
     dr_delivery_changed = False, dr_outputs_changed = False, dr_previous_hash = [], dr_current_hash = []\<rparr>"

text \<open>\<open>canonical\<close> is the result of \<open>CanonicalProjectPath\<close>, \<open>None\<close> its error.\<close>

definition target_drift ::
    "(string list \<Rightarrow> string) \<Rightarrow> (string gomap \<Rightarrow> string) \<Rightarrow> string option \<Rightarrow> target_expansion \<Rightarrow> vault
      \<Rightarrow> store_error + manifest_drift" where
  "target_drift hash hash_map canonical e v =
     (if trim (te_name e) = [] then Inr no_drift
      else (case canonical of
          None \<Rightarrow> Inl ProjectPathError
        | Some proj \<Rightarrow>
            (case map_of (v_reviews v) (review_key proj (te_name e)) of
               None \<Rightarrow> Inr (no_drift\<lparr>dr_current_hash := te_hash e\<rparr>)
             | Some review \<Rightarrow>
                 let current = expansion_signature hash hash_map e; old = mr_signature review;
                     c = (ms_command old \<noteq> ms_command current); r = (ms_refs old \<noteq> ms_refs current);
                     out = (ms_outputs old \<noteq> ms_outputs current); d = (ms_delivery old \<noteq> ms_delivery current)
                 in Inr \<lparr>dr_known = True, dr_changed = (c \<or> r \<or> out \<or> d \<or> mr_project_root review \<noteq> proj),
                        dr_command_changed = c, dr_refs_changed = r, dr_delivery_changed = d, dr_outputs_changed = out,
                        dr_previous_hash = mr_manifest_hash review, dr_current_hash = te_hash e\<rparr>)))"

definition record_target_review ::
    "(string list \<Rightarrow> string) \<Rightarrow> (string gomap \<Rightarrow> string) \<Rightarrow> io \<Rightarrow> time \<Rightarrow> string option \<Rightarrow> target_expansion \<Rightarrow> sys
      \<Rightarrow> store_error option \<times> sys" where
  "record_target_review hash hash_map io now canonical e s =
     (if trim (te_name e) = [] then (None, s)
      else (case canonical of
          None \<Rightarrow> (Some ProjectPathError, s)
        | Some proj \<Rightarrow>
            let review = \<lparr>mr_project_root = proj, mr_target_name = te_name e, mr_manifest_hash = te_hash e,
                          mr_signature = expansion_signature hash hash_map e, mr_reviewed_at = now\<rparr>
            in persist io (s\<lparr>mem := (mem s)\<lparr>v_reviews := put (review_key proj (te_name e)) review (v_reviews (mem s))\<rparr>\<rparr>)))"

section \<open>What validation gives\<close>

text \<open>A cleaned relative path climbs first and then only descends.\<close>

definition climbs :: "string list \<Rightarrow> bool" where
  "climbs ps \<longleftrightarrow> (\<exists>n qs. ps = replicate n ''..'' @ qs \<and> ''..'' \<notin> set qs \<and> '''' \<notin> set qs \<and> ''.'' \<notin> set qs)"

lemma clean_parts_climbs:
  "climbs (rev parts) \<Longrightarrow> climbs (clean_parts False parts cs)"
proof (induction cs arbitrary: parts)
  case (Cons c cs)
  from Cons.prems obtain n qs where p: "rev parts = replicate n ''..'' @ qs"
    and qs: "''..'' \<notin> set qs" "'''' \<notin> set qs" "''.'' \<notin> set qs" by (auto simp: climbs_def)
  show ?case
  proof (cases "c = [] \<or> c = ''.''")
    case True
    with Cons show ?thesis by simp
  next
    case ncur: False
    show ?thesis
    proof (cases "c = ''..''")
      case False
      have "climbs (rev (c # parts))"
        unfolding climbs_def using p qs ncur False
        by (intro exI [of _ n] exI [of _ "qs @ [c]"]) auto
      with Cons.IH ncur False show ?thesis by simp
    next
      case up: True
      show ?thesis
      proof (cases qs rule: rev_cases)
        case Nil
        with p have "parts = replicate n ''..''" by (metis append_Nil2 rev_replicate rev_rev_ident)
        then have "climbs (rev (''..'' # parts))"
          unfolding climbs_def by (intro exI [of _ "Suc n"] exI [of _ "[]"]) (simp add: replicate_append_same)
        moreover from \<open>parts = replicate n ''..''\<close> have "parts \<noteq> [] \<Longrightarrow> hd parts = ''..''" by (cases n) auto
        ultimately
        show ?thesis using Cons.IH up ncur by auto
      next
        case (snoc qs' q)
        with p have parts: "parts = q # rev (replicate n ''..'' @ qs')" by (metis append.assoc rev_eq_Cons_iff rev_rev_ident)
        then have "climbs (rev (tl parts))" unfolding climbs_def using snoc qs
          by (intro exI [of _ n] exI [of _ qs']) auto
        with Cons.IH [of "tl parts"] parts up ncur qs snoc show ?thesis by auto
      qed
    qed
  qed
qed simp

lemma clean_parts_set: "set (clean_parts r parts cs) \<subseteq> set parts \<union> set cs"
proof (induction cs arbitrary: parts)
  case (Cons c cs)
  have "set (tl parts) \<subseteq> set parts" by (cases parts) auto
  moreover have "clean_parts r parts (c # cs) \<in> {clean_parts r parts cs, clean_parts r (tl parts) cs, clean_parts r (c # parts) cs}"
    by simp
  ultimately show ?case
    using Cons.IH [of parts] Cons.IH [of "tl parts"] Cons.IH [of "c # parts"]
    by (elim insertE emptyE) (simp_all only: list.set, blast+)
qed simp

lemma climbs_components: "climbs ps \<Longrightarrow> q \<in> set ps \<Longrightarrow> q \<noteq> [] \<and> q \<noteq> ''.''"
  by (auto simp: climbs_def set_replicate_conv_if split: if_splits)

lemma path_clean_relative:
  assumes "p \<noteq> []" and "hd p \<noteq> CHR ''/''"
  obtains ps where "path_clean p = (if ps = [] then ''.'' else join ''/'' ps)" "climbs ps"
    "\<forall>q\<in>set ps. CHR ''/'' \<notin> set q"
proof
  let ?ps = "clean_parts False [] (split_at CHR ''/'' p)"
  show c: "climbs ?ps" by (rule clean_parts_climbs) (auto simp: climbs_def)
  show no: "\<forall>q\<in>set ?ps. CHR ''/'' \<notin> set q"
    using clean_parts_set [of False "[]" "split_at CHR ''/'' p"] split_at_parts by fastforce
  have "join ''/'' ?ps = [] \<longleftrightarrow> ?ps = []"
  proof (cases ?ps)
    case (Cons q qs)
    from climbs_components [OF c, of q] Cons have "q \<noteq> []" by simp
    then show ?thesis using Cons by (cases qs) auto
  qed simp
  then show "path_clean p = (if ?ps = [] then ''.'' else join ''/'' ?ps)"
    using assms by (simp add: path_clean_def Let_def)
qed

section \<open>From a valid manifest to its expansion\<close>

definition requirements_ok :: "repo_manifest \<Rightarrow> manifest_requirement gomap \<Rightarrow> bool" where
  "requirements_ok m reqs \<longleftrightarrow>
     (\<forall>k q. map_of reqs k = Some q \<longrightarrow> q \<in> set (rm_requirements m) \<and> trim (mq_ref q) = k)"

lemma check_requirements_ok:
  "check_requirements m rs reqs = Inr reqs' \<Longrightarrow> set rs \<subseteq> set (rm_requirements m) \<Longrightarrow> requirements_ok m reqs \<Longrightarrow>
     requirements_ok m reqs'"
proof (induction rs arbitrary: reqs)
  case (Cons r rs)
  then obtain reqs1 where c: "check_requirement m reqs r = Inr reqs1" and rest: "check_requirements m rs reqs1 = Inr reqs'"
    by (auto elim: bind_r_InrE)
  from c have "reqs1 = put (trim (mq_ref r)) r reqs"
    by (auto simp: check_requirement_def Let_def split: if_splits)
  with Cons.prems(2,3) have "requirements_ok m reqs1" by (auto simp: requirements_ok_def)
  with Cons.IH [OF rest] Cons.prems(2) show ?case by simp
qed simp

text \<open>The table of sets answers as a search through the declared sets does.\<close>

lemma check_credential_sets_find:
  "check_credential_sets reqs cs sets = Inr sets' \<Longrightarrow> \<forall>c\<in>set cs. trim (mcs_name c) = mcs_name c \<Longrightarrow>
     map_option mcs_members (map_of sets' k) =
       (case map_of sets k of Some c \<Rightarrow> Some (mcs_members c)
        | None \<Rightarrow> map_option mcs_members (find (\<lambda>c. ascii_lower (mcs_name c) = k) cs))"
proof (induction cs arbitrary: sets)
  case Nil
  then show ?case by (auto split: option.split)
next
  case (Cons c cs)
  then obtain sets1 where c: "check_credential_set reqs sets c = Inr sets1"
    and rest: "check_credential_sets reqs cs sets1 = Inr sets'"
    by (auto elim: bind_r_InrE)
  let ?l = "ascii_lower (mcs_name c)"
  from c Cons.prems(2) obtain c' where s1: "sets1 = put ?l c' sets" "mcs_members c' = mcs_members c" "map_of sets ?l = None"
    by (auto simp: check_credential_set_def Let_def split: if_splits option.splits)
  with Cons.IH [OF rest] Cons.prems(2) show ?case by (auto split: option.splits)
qed

definition unpadded :: "repo_manifest \<Rightarrow> bool" where
  "unpadded m \<longleftrightarrow> (\<forall>c\<in>set (rm_credential_sets m). trim (mcs_name c) = mcs_name c) \<and>
     (\<forall>t\<in>set (rm_targets m). \<forall>d\<in>set (mt_delivery t). trim (md_as d) = md_as d)"

lemma resolve_is_delivery_ref:
  assumes "check_credential_sets reqs (rm_credential_sets m) [] = Inr sets"
    and "unpadded m" and "resolve_delivery_ref d sets = Inr ref"
  shows "delivery_ref m d = ref"
proof (cases "trim (md_ref d) = []")
  case False
  with assms(3) show ?thesis by (auto simp: resolve_delivery_ref_def delivery_ref_def Let_def split: if_splits)
next
  case True
  let ?k = "ascii_lower (trim (md_from_set d))"
  from assms(3) True obtain c where set_ne: "trim (md_from_set d) \<noteq> []" and c: "map_of sets ?k = Some c"
    and ref: "ref = trim (look [] (mcs_members c) (trim (md_role d)))"
    by (auto simp: resolve_delivery_ref_def Let_def split: if_splits option.splits)
  have "map_option mcs_members (map_of sets ?k)
      = map_option mcs_members (find (\<lambda>c. ascii_lower (mcs_name c) = ?k) (rm_credential_sets m))"
    using check_credential_sets_find [OF assms(1), of ?k] assms(2) by (simp add: unpadded_def)
  with c obtain c0 where "find (\<lambda>c. ascii_lower (mcs_name c) = ?k) (rm_credential_sets m) = Some c0"
    "mcs_members c0 = mcs_members c"
    by (cases "find (\<lambda>c. ascii_lower (mcs_name c) = ?k) (rm_credential_sets m)") simp_all
  then show ?thesis
    using True set_ne by (simp add: delivery_ref_def delivery_credential_set_def credential_set_named_def ref)
qed

lemma check_deliveries_None:
  "check_deliveries inside reqs sets taken ds = None \<Longrightarrow>
     (\<forall>d\<in>set ds. check_delivery d reqs sets = None)
     \<and> distinct (map (\<lambda>d. ascii_lower (trim (md_name d))) ds)
     \<and> (\<forall>d\<in>set ds. ascii_lower (trim (md_name d)) \<notin> set taken)"
proof (induction ds arbitrary: taken)
  case (Cons d ds)
  let ?key = "ascii_lower (trim (md_name d))"
  from Cons.prems have d: "check_delivery d reqs sets = None" and "?key \<notin> set taken"
    and rest: "check_deliveries inside reqs sets (?key # taken) ds = None"
    by (auto simp: Let_def split: option.splits if_splits)
  with Cons.IH [OF rest] show ?case by auto
qed simp

lemma distinct_names: "distinct (map (\<lambda>d. ascii_lower (trim (md_name d))) ds) \<Longrightarrow> distinct (map (\<lambda>d. trim (md_name d)) ds)"
  by (induction ds) auto

text \<open>The table of an expansion that a delivery format fills.\<close>

definition delivered :: "string \<Rightarrow> target_expansion \<Rightarrow> string gomap" where
  "delivered format e = (if format = ''env'' then te_env e else if format = ''file'' then te_files e else te_xcconfig e)"

lemma expand_delivery_table:
  "f \<in> {''env'', ''file'', ''xcconfig''} \<Longrightarrow> map_of (delivered f (expand_delivery m d e)) =
     (if md_as d = f then (map_of (delivered f e))(trim (md_name d) \<mapsto> delivery_ref m d) else map_of (delivered f e))"
  by (elim insertE emptyE; simp add: expand_delivery_def delivered_def Let_def split: option.split)

lemma expand_delivery_lists:
  "te_refs (expand_delivery m d e) = te_refs e @ [delivery_ref m d]"
  "te_destinations (expand_delivery m d e) = te_destinations e @ [trim (md_name d)]"
  by (simp_all add: expand_delivery_def Let_def split: option.split)

lemma fold_expand_lists:
  "te_refs (fold (expand_delivery m) ds e) = te_refs e @ map (delivery_ref m) ds"
  "te_destinations (fold (expand_delivery m) ds e) = te_destinations e @ map (\<lambda>d. trim (md_name d)) ds"
  by (induction ds arbitrary: e) (simp_all add: expand_delivery_lists)

lemma fold_expand_other:
  "f \<in> {''env'', ''file'', ''xcconfig''} \<Longrightarrow> n \<notin> (\<lambda>d. trim (md_name d)) ` set ds \<Longrightarrow>
     map_of (delivered f (fold (expand_delivery m) ds e)) n = map_of (delivered f e) n"
  by (induction ds arbitrary: e) (simp_all only: fold_simps comp_apply, simp_all add: expand_delivery_table)

lemma fold_expand_table:
  assumes "f \<in> {''env'', ''file'', ''xcconfig''}"
  shows "d \<in> set ds \<Longrightarrow> distinct (map (\<lambda>d. trim (md_name d)) ds) \<Longrightarrow> md_as d = f \<Longrightarrow>
     map_of (delivered f (fold (expand_delivery m) ds e)) (trim (md_name d)) = Some (delivery_ref m d)"
proof (induction ds arbitrary: e)
  case (Cons a ds)
  show ?case
  proof (cases "d = a")
    case True
    with Cons.prems fold_expand_other [OF assms, of "trim (md_name d)" ds m "expand_delivery m d e"]
    show ?thesis by (simp add: expand_delivery_table [OF assms])
  next
    case False
    with Cons show ?thesis by simp
  qed
qed simp

lemma set_sorted_compact [simp]: "set (sorted_compact xs) = set xs"
  by (simp add: sorted_compact_def sort_strings_def)

lemma check_targets_each:
  "check_targets inside reqs sets ts names = Inr names' \<Longrightarrow> t \<in> set ts \<Longrightarrow>
     \<exists>names0 names1. check_target inside reqs sets names0 t = Inr names1"
  by (induction ts arbitrary: names) (auto elim!: bind_r_InrE)

lemma check_target_deliveries:
  "check_target inside reqs sets names t = Inr names' \<Longrightarrow>
     \<exists>taken. check_deliveries inside reqs sets taken (mt_delivery t) = None"
  by (auto simp: check_target_def first_error_def Let_def split: if_splits option.splits sum.splits)

definition accepted_delivery :: "repo_manifest \<Rightarrow> manifest_delivery \<Rightarrow> bool" where
  "accepted_delivery m d \<longleftrightarrow> env_name (trim (md_name d)) \<and> \<not> dangerous_destination (trim (md_name d)) \<and>
     (\<exists>q\<in>set (rm_requirements m). trim (mq_ref q) = delivery_ref m d
        \<and> trim (mq_classification q) \<noteq> ''browser_session'' \<and> (mq_kind q = ''file'' \<longrightarrow> trim (md_as d) = ''file''))"

lemma valid_deliveries:
  assumes "validate_manifest inside m = None" and "unpadded m" and "t \<in> set (rm_targets m)"
  shows "distinct (map (\<lambda>d. trim (md_name d)) (mt_delivery t))"
    and "d \<in> set (mt_delivery t) \<Longrightarrow> accepted_delivery m d \<and> trim (md_as d) \<in> {''env'', ''file'', ''xcconfig''}"
proof -
  from assms(1) obtain reqs sets names where reqs: "check_requirements m (rm_requirements m) [] = Inr reqs"
    and sets: "check_credential_sets reqs (rm_credential_sets m) [] = Inr sets"
    and ts: "check_targets inside reqs sets (rm_targets m) [] = Inr names"
    by (auto simp: validate_manifest_def split: option.splits sum.splits elim!: bind_r_InrE)
  from check_targets_each [OF ts assms(3)] check_target_deliveries obtain taken
    where ds: "check_deliveries inside reqs sets taken (mt_delivery t) = None" by blast
  note ds = check_deliveries_None [OF ds]
  then show "distinct (map (\<lambda>d. trim (md_name d)) (mt_delivery t))" by (intro distinct_names) simp
  have ok: "requirements_ok m reqs"
    using check_requirements_ok [OF reqs] by (simp add: requirements_ok_def)
  assume "d \<in> set (mt_delivery t)"
  with ds have "check_delivery d reqs sets = None" by simp
  then obtain ref q where r: "resolve_delivery_ref d sets = Inr ref" "map_of reqs ref = Some q"
    and rest: "env_name (trim (md_name d))" "\<not> dangerous_destination (trim (md_name d))"
      "trim (md_as d) \<in> {''env'', ''file'', ''xcconfig''}"
      "trim (mq_classification q) \<noteq> ''browser_session''" "mq_kind q = ''file'' \<longrightarrow> trim (md_as d) = ''file''"
    by (auto simp: check_delivery_def Let_def split: if_splits sum.splits option.splits)
  from resolve_is_delivery_ref [OF sets assms(2) r(1)] r(2) ok rest
  show "accepted_delivery m d \<and> trim (md_as d) \<in> {''env'', ''file'', ''xcconfig''}"
    unfolding accepted_delivery_def requirements_ok_def by blast
qed

section \<open>Properties\<close>


definition sample_delivery :: "string \<Rightarrow> manifest_delivery" where
  "sample_delivery format = \<lparr>md_as = format, md_name = ''TOKEN'', md_ref = ''secret_01'', md_from_set = '''', md_role = '''', md_output = ''''\<rparr>"

definition sample_manifest :: "string \<Rightarrow> repo_manifest" where
  "sample_manifest format = \<lparr>rm_version = ''v1'', rm_project = \<lparr>mp_name = '''', mp_description = ''''\<rparr>,
     rm_references = [\<lparr>mf_alias = ''secret_01'', mf_item = ''token''\<rparr>],
     rm_requirements = [\<lparr>mq_ref = ''secret_01'', mq_kind = ''kv'', mq_required = True, mq_classification = ''secret'', mq_description = ''''\<rparr>],
     rm_credential_sets = [],
     rm_targets = [\<lparr>mt_name = ''dev'', mt_description = '''', mt_root = '''', mt_command = [''run''], mt_literal_env = [],
       mt_delivery = [sample_delivery format], mt_examples = []\<rparr>],
     rm_default_capture_policy = ''''\<rparr>"

lemma sample_manifest_valid: "validate_manifest (\<lambda>_. True) (sample_manifest ''env'') = None"
  by code_simp


text \<open>Validation trims a delivery's format but expansion compares it untrimmed: a manifest with the
  format written with a leading blank is valid, yet its delivery reaches no table while its reference
  and destination are still listed.\<close>

theorem padded_format_not_delivered:
  "validate_manifest (\<lambda>_. True) (sample_manifest '' env'') = None \<and>
   (case expand_target (Some (sample_manifest '' env'', ''h'')) ''dev'' of
      Inl _ \<Rightarrow> False
    | Inr e \<Rightarrow> te_env e = [] \<and> te_files e = [] \<and> te_xcconfig e = [] \<and> te_refs e = [''secret_01''] \<and> te_destinations e = [''TOKEN''])"
  by code_simp

text \<open>C30: An accepted relative path is not absolute and, cleaned, has no component that climbs, and it
  satisfies the check for links.\<close>

theorem manifest_path_contained:
  assumes "check_relative_path inside raw label required = None" and "trim raw \<noteq> []"
  shows "hd (trim raw) \<noteq> CHR ''/'' \<and> ''..'' \<notin> set (split_at CHR ''/'' (path_clean (trim raw))) \<and> inside (path_clean (trim raw))"
proof -
  let ?c = "path_clean (trim raw)"
  from assms have abs: "hd (trim raw) \<noteq> CHR ''/''" and up: "?c \<noteq> ''..''" "\<not> prefix ''../'' ?c" and ins: "inside ?c"
    by (auto simp: check_relative_path_def Let_def split: if_splits)
  from path_clean_relative [OF assms(2) abs] obtain ps where
    c: "?c = (if ps = [] then ''.'' else join ''/'' ps)" "climbs ps" "\<forall>q\<in>set ps. CHR ''/'' \<notin> set q" .
  have "''..'' \<notin> set (split_at CHR ''/'' ?c)"
  proof (cases "ps = []")
    case True
    with c show ?thesis by simp
  next
    case False
    from c(2) obtain n qs where ps: "ps = replicate n ''..'' @ qs" "''..'' \<notin> set qs" by (auto simp: climbs_def)
    have "n = 0"
    proof (rule ccontr)
      assume "n \<noteq> 0"
      then obtain k where n: "n = Suc k" by (cases n) auto
      then obtain rest where "ps = ''..'' # rest" using ps by simp
      with c(1) up show False by (cases rest) auto
    qed
    with ps c False show ?thesis by (simp add: split_join)
  qed
  with abs ins show ?thesis by simp
qed

theorem manifest_path_contained_witness:
  "check_relative_path (\<lambda>_. True) ''a/../b/./c'' ''p'' True = None \<and> ''..'' \<notin> set (split_at CHR ''/'' (path_clean ''a/../b/./c''))
   \<and> check_relative_path (\<lambda>_. True) ''a/../../c'' ''p'' True \<noteq> None"
proof -
  have ok: "check_relative_path (\<lambda>_. True) ''a/../b/./c'' ''p'' True = None"
    and bad: "check_relative_path (\<lambda>_. True) ''a/../../c'' ''p'' True \<noteq> None"
    by (simp_all add: check_relative_path_def path_clean_def)
  from manifest_path_contained [OF ok] ok bad show ?thesis by simp
qed

lemma sort_strings_perm: "mset xs = mset ys \<Longrightarrow> sort_strings xs = sort_strings ys"
  unfolding sort_strings_def by (rule sort_on_perm) simp_all


definition sample_expansion :: target_expansion where
  "sample_expansion = \<lparr>te_name = ''dev'', te_root = '''', te_hash = ''h'', te_command = [''run''], te_literal_env = [],
     te_env = [(''TOKEN'', ''@token'')], te_files = [], te_xcconfig = [], te_outputs = [], te_refs = [''@token''],
     te_destinations = [''TOKEN''], te_credential_sets = []\<rparr>"


text \<open>The signature does not depend on the order in which the maps of an expansion are iterated.\<close>

theorem signature_order_free:
  assumes "mset (te_env e) = mset env'" and "mset (te_files e) = mset files'"
    and "mset (te_xcconfig e) = mset xc'" and "mset (te_outputs e) = mset out'"
  shows "expansion_signature hash hash_map (e\<lparr>te_env := env', te_files := files', te_xcconfig := xc', te_outputs := out'\<rparr>)
       = expansion_signature hash hash_map e"
proof -
  let ?e = "e\<lparr>te_env := env', te_files := files', te_xcconfig := xc', te_outputs := out'\<rparr>"
  have perm: "mset (map_entries pre xs) = mset (map_entries pre ys)" if "mset xs = mset ys" for pre and xs ys :: "string gomap"
    using that by (simp add: map_entries_def)
  have "delivery_signature hash_map ?e = delivery_signature hash_map e"
    unfolding delivery_signature_def
    by (rule sort_strings_perm) (simp add: perm [OF assms(1)] perm [OF assms(2)] perm [OF assms(3)])
  moreover have "string_map_signature out' = string_map_signature (te_outputs e)"
    unfolding string_map_signature_def by (rule sort_strings_perm) (simp add: assms)
  ultimately show ?thesis by (simp add: expansion_signature_def)
qed

theorem signature_order_free_witness:
  "expansion_signature concat (\<lambda>_. []) (sample_expansion\<lparr>te_env := [(''B'', ''2''), (''A'', ''1'')], te_files := [], te_xcconfig := [], te_outputs := []\<rparr>)
   = expansion_signature concat (\<lambda>_. []) (sample_expansion\<lparr>te_env := [(''A'', ''1''), (''B'', ''2'')]\<rparr>)"
  using signature_order_free [of "sample_expansion\<lparr>te_env := [(''A'', ''1''), (''B'', ''2'')]\<rparr>" "[(''B'', ''2''), (''A'', ''1'')]" "[]" "[]" "[]"]
  by (simp add: sample_expansion_def)

end
