(* ===== verification/Items.thy ===== *)
theory Items
  imports Manifest
begin

text \<open>
  Items and their exposure to projects: \<^verbatim>\<open>internal/store/items.go\<close>, \<^verbatim>\<open>classification.go\<close>,
  \<^verbatim>\<open>binding.go\<close>, \<^verbatim>\<open>exposure.go\<close>, \<^verbatim>\<open>import.go\<close> (reference resolution and import),
  \<^verbatim>\<open>capture.go\<close>, \<^verbatim>\<open>dotenv.go\<close> and \<^verbatim>\<open>password_policy.go\<close>. The canonical paths of a project
  and the manifest found under a root come from the file system: they are the record
  \<open>project\<close>. The iteration order of a Go map is the order of its list.
\<close>

section \<open>Items\<close>

definition effective_classification :: "item \<Rightarrow> string" where
  "effective_classification it =
     (if it_classification it = ''configuration'' then ''configuration'' else ''confidential'')"

definition confidential :: "item \<Rightarrow> bool" where
  "confidential it = (effective_classification it = ''confidential'')"

definition get_item :: "string \<Rightarrow> vault \<Rightarrow> item option" where
  "get_item name v = find (\<lambda>it. it_name it = name \<and> it_deleted_at it = None) (vals (v_items v))"

definition entry_named :: "string \<Rightarrow> vault \<Rightarrow> (string \<times> item) option" where
  "entry_named name v = find (\<lambda>e. it_name (snd e) = name) (v_items v)"

definition upsert_item ::
    "io \<Rightarrow> (nat \<Rightarrow> time) \<Rightarrow> string option \<Rightarrow> string \<Rightarrow> string \<Rightarrow> string \<Rightarrow> item_metadata \<Rightarrow> sys
      \<Rightarrow> (store_error + item) \<times> sys" where
  "upsert_item io clock rnd raw kind value metadata s =
     (let name = trim raw;
          store = (\<lambda>key it. case persist_and_log io ''item.upsert'' [(''name'', DStr (it_name it)), (''kind'', DStr (it_kind it))]
                       (s\<lparr>mem := (mem s)\<lparr>v_items := put key it (v_items (mem s))\<rparr>\<rparr>) of
                     (None, s') \<Rightarrow> (Inr it, s') | (Some e, s') \<Rightarrow> (Inl e, s'))
      in if name = [] then (Inl NameRequired, s)
         else if kind \<noteq> ''kv'' \<and> kind \<noteq> ''file'' then (Inl (UnsupportedKind kind), s)
         else (case entry_named name (mem s) of
             Some (key, existing) \<Rightarrow>
               store key (existing\<lparr>it_classification := ''confidential'', it_kind := kind, it_value := value,
                 it_metadata := metadata, it_updated_at := clock 0, it_deleted_at := None\<rparr>)
           | None \<Rightarrow> (case rnd of
               None \<Rightarrow> (Inl RandomFailed, s)
             | Some key \<Rightarrow> store key \<lparr>it_classification = '''', it_id = key, it_name = name, it_kind = kind,
                 it_value = value, it_metadata = metadata, it_created_at = clock 0, it_updated_at = clock 1,
                 it_deleted_at = None\<rparr>)))"

definition remove_item_from_bindings :: "string \<Rightarrow> binding gomap \<Rightarrow> binding gomap" where
  "remove_item_from_bindings name bs =
     map_vals (\<lambda>_ b. b\<lparr>bd_aliases := keep (\<lambda>_ existing. existing \<noteq> name) (bd_aliases b)\<rparr>) bs"

definition delete_item :: "io \<Rightarrow> time \<Rightarrow> string \<Rightarrow> sys \<Rightarrow> store_error option \<times> sys" where
  "delete_item io now name s =
     (case find (\<lambda>e. it_name (snd e) = name \<and> it_deleted_at (snd e) = None) (v_items (mem s)) of
        None \<Rightarrow> (Some ItemNotFound, s)
      | Some (key, it) \<Rightarrow>
          persist_and_log io ''item.delete'' [(''name'', DStr (it_name it))]
            (s\<lparr>mem := (mem s)\<lparr>v_items := put key (it\<lparr>it_deleted_at := Some now, it_updated_at := now\<rparr>) (v_items (mem s)),
                             v_bindings := remove_item_from_bindings name (v_bindings (mem s))\<rparr>\<rparr>))"

definition list_items :: "vault \<Rightarrow> item list" where
  "list_items v = sort_on it_name (filter (\<lambda>it. it_deleted_at it = None) (vals (v_items v)))"

definition list_item_metadata :: "vault \<Rightarrow> item list" where
  "list_item_metadata v =
     sort_on it_name (map (\<lambda>it. it\<lparr>it_value := []\<rparr>) (filter (\<lambda>it. it_deleted_at it = None) (vals (v_items v))))"

text \<open>\<open>SetItemClassification\<close> stores under the item's own id and undoes the change in memory when the
  write fails.\<close>

definition set_item_classification ::
    "io \<Rightarrow> time \<Rightarrow> string \<Rightarrow> string \<Rightarrow> sys \<Rightarrow> (store_error + item) \<times> sys" where
  "set_item_classification io now name classification s =
     (if classification \<noteq> ''confidential'' \<and> classification \<noteq> ''configuration''
        then (Inl (UnknownClassification classification), s)
      else (case refresh_state io s of
          (Some e, s1) \<Rightarrow> (Inl e, s1)
        | (None, s1) \<Rightarrow> (case get_item name (mem s1) of
            None \<Rightarrow> (Inl ItemNotFound, s1)
          | Some original \<Rightarrow>
              let it = original\<lparr>it_classification := classification, it_updated_at := now\<rparr>;
                  with_item = (\<lambda>i s. s\<lparr>mem := (mem s)\<lparr>v_items := put (it_id i) i (v_items (mem s))\<rparr>\<rparr>)
              in (case persist io (with_item it s1) of
                    (Some e, s2) \<Rightarrow> (Inl e, with_item original s2)
                  | (None, s2) \<Rightarrow> (Inr (it\<lparr>it_value := []\<rparr>),
                      append_audit ''item.classification'' ''user''
                        [(''name'', DStr (it_name it)), (''previous'', DStr (effective_classification original)),
                         (''classification'', DStr classification)] s2)))))"

section \<open>Bindings\<close>

datatype manifest_load = NoManifest | BadManifest string | Loaded repo_manifest

record project =
  pj_exact :: "string option"
  pj_root :: "string option"
  pj_manifest :: "string \<Rightarrow> manifest_load"

definition normalize_policy :: "string \<Rightarrow> string" where
  "normalize_policy p = (if p = ''session'' \<or> p = ''access'' then p else ''auto'')"

definition binding_root :: "project \<Rightarrow> vault \<Rightarrow> store_error + string" where
  "binding_root p v =
     (case pj_exact p of
        None \<Rightarrow> Inl ProjectPathError
      | Some exact \<Rightarrow>
          if map_of (v_bindings v) exact \<noteq> None then Inr exact
          else (case pj_root p of None \<Rightarrow> Inr exact | Some proj \<Rightarrow> Inr proj))"

text \<open>\<open>Sprintf("%s_%02d", prefix, i)\<close> and the loop that counts up to the first free alias.\<close>

definition neutral_alias :: "string \<Rightarrow> nat \<Rightarrow> string" where
  "neutral_alias pre i = pre @ ''_'' @ (if i < 10 then ''0'' else []) @ dec_nat i"

definition alias_prefix :: "string \<Rightarrow> string" where
  "alias_prefix kind = (if kind = ''kv'' then ''secret'' else if kind = ''file'' then ''file'' else ''credential'')"

lemma neutral_alias_inject [simp]: "neutral_alias p i = neutral_alias p j \<longleftrightarrow> i = j"
proof -
  have "digits_val 0 ((if i < 10 then ''0'' else []) @ dec_nat i) = Some i" for i
    by (simp add: digits_val_dec_nat)
  then show ?thesis unfolding neutral_alias_def by (metis append_same_eq option.inject same_append_eq)
qed

lemma finite_taken: "finite {j. i \<le> j \<and> neutral_alias p j \<in> fst ` set m}"
proof -
  have "finite (neutral_alias p -` (fst ` set m))" by (rule finite_vimageI) (auto intro: injI)
  then show ?thesis by (rule finite_subset [rotated]) auto
qed

function alias_loop :: "string \<Rightarrow> string gomap \<Rightarrow> nat \<Rightarrow> string" where
  "alias_loop pre existing i =
     (if map_of existing (neutral_alias pre i) = None then neutral_alias pre i
      else alias_loop pre existing (Suc i))"
  by pat_completeness auto
termination
proof (relation "measure (\<lambda>(p, m, i). card {j. i \<le> j \<and> neutral_alias p j \<in> fst ` set m})", goal_cases)
  case (2 p m i)
  then have "neutral_alias p i \<in> fst ` set m" by (simp add: map_of_eq_None_iff)
  then have "i \<in> {j. i \<le> j \<and> neutral_alias p j \<in> fst ` set m}" by simp
  moreover have "i \<notin> {j. Suc i \<le> j \<and> neutral_alias p j \<in> fst ` set m}" by simp
  moreover have "{j. Suc i \<le> j \<and> neutral_alias p j \<in> fst ` set m} \<subseteq> {j. i \<le> j \<and> neutral_alias p j \<in> fst ` set m}"
    by (rule Collect_mono) simp
  ultimately have "{j. Suc i \<le> j \<and> neutral_alias p j \<in> fst ` set m} \<subset> {j. i \<le> j \<and> neutral_alias p j \<in> fst ` set m}"
    by blast
  then show ?case by (simp add: psubset_card_mono finite_taken)
qed simp

declare alias_loop.simps [simp del]

definition generate_neutral_alias :: "string \<Rightarrow> string gomap \<Rightarrow> string" where
  "generate_neutral_alias kind existing = alias_loop (alias_prefix kind) existing 1"

definition upsert_binding ::
    "io \<Rightarrow> string option \<Rightarrow> project \<Rightarrow> string gomap \<Rightarrow> string \<Rightarrow> bool \<Rightarrow> sys \<Rightarrow> (store_error + binding) \<times> sys" where
  "upsert_binding io rnd p aliases policy hook s =
     (case pj_exact p of
        None \<Rightarrow> (Inl ProjectPathError, s)
      | Some proj \<Rightarrow>
     (case (case map_of (v_bindings (mem s)) proj of
              Some b \<Rightarrow> Some b
            | None \<Rightarrow> map_option (\<lambda>bid. \<lparr>bd_id = bid, bd_canonical_root = proj, bd_aliases = [],
                        bd_default_capture_policy = '''', bd_hook_installed = False\<rparr>) rnd) of
        None \<Rightarrow> (Inl RandomFailed, s)
      | Some b \<Rightarrow>
          let b' = b\<lparr>bd_aliases := fold (\<lambda>(a, i). put (trim a) (trim i)) aliases (bd_aliases b),
                     bd_default_capture_policy := normalize_policy policy,
                     bd_hook_installed := (bd_hook_installed b \<or> hook)\<rparr>
          in (case persist_and_log io ''binding.upsert'' [(''root'', DStr proj)]
                     (s\<lparr>mem := (mem s)\<lparr>v_bindings := put proj b' (v_bindings (mem s))\<rparr>\<rparr>) of
                (None, s') \<Rightarrow> (Inr b', s') | (Some e, s') \<Rightarrow> (Inl e, s'))))"

definition bind_item_alias ::
    "io \<Rightarrow> string option \<Rightarrow> project \<Rightarrow> string \<Rightarrow> sys \<Rightarrow> (store_error + string) \<times> sys" where
  "bind_item_alias io rnd p name s =
     (case binding_root p (mem s) of
        Inl e \<Rightarrow> (Inl e, s)
      | Inr proj \<Rightarrow>
     (case get_item name (mem s) of
        None \<Rightarrow> (Inl ItemNotFound, s)
      | Some it \<Rightarrow>
     (case (case map_of (v_bindings (mem s)) proj of
              Some b \<Rightarrow> Some b
            | None \<Rightarrow> map_option (\<lambda>bid. \<lparr>bd_id = bid, bd_canonical_root = proj, bd_aliases = [],
                        bd_default_capture_policy = normalize_policy (im_policy (it_metadata it)),
                        bd_hook_installed = False\<rparr>) rnd) of
        None \<Rightarrow> (Inl RandomFailed, s)
      | Some b \<Rightarrow>
          (case find (\<lambda>e. snd e = it_name it) (bd_aliases b) of
             Some e \<Rightarrow> (Inr (fst e), s)
           | None \<Rightarrow>
               let a = generate_neutral_alias (it_kind it) (bd_aliases b);
                   b' = b\<lparr>bd_aliases := put a (it_name it) (bd_aliases b)\<rparr>
               in (case persist_and_log io ''binding.alias_bind'' [(''root'', DStr proj), (''alias'', DStr a), (''item'', DStr (it_name it))]
                          (s\<lparr>mem := (mem s)\<lparr>v_bindings := put proj b' (v_bindings (mem s))\<rparr>\<rparr>) of
                     (None, s') \<Rightarrow> (Inr a, s') | (Some e, s') \<Rightarrow> (Inl e, s'))))))"

definition delete_binding :: "io \<Rightarrow> project \<Rightarrow> sys \<Rightarrow> store_error option \<times> sys" where
  "delete_binding io p s =
     (case binding_root p (mem s) of
        Inl e \<Rightarrow> (Some e, s)
      | Inr proj \<Rightarrow> persist_and_log io ''binding.delete'' [(''root'', DStr proj)]
                     (s\<lparr>mem := (mem s)\<lparr>v_bindings := del proj (v_bindings (mem s))\<rparr>\<rparr>))"

text \<open>The aliases of the manifest, then the local ones on top, which must not disagree.\<close>

definition manifest_aliases :: "manifest_reference list \<Rightarrow> string gomap" where
  "manifest_aliases refs =
     fold (\<lambda>r m. if trim (mf_alias r) = [] \<or> trim (mf_item r) = [] then m else put (mf_alias r) (mf_item r) m) refs []"

fun merge_aliases :: "string gomap \<Rightarrow> string gomap \<Rightarrow> store_error + string gomap" where
  "merge_aliases acc [] = Inr acc"
| "merge_aliases acc ((a, i) # rest) =
     (case map_of acc a of
        Some existing \<Rightarrow> if existing \<noteq> i then Inl (BindingConflict a existing i) else merge_aliases (put a i acc) rest
      | None \<Rightarrow> merge_aliases (put a i acc) rest)"

definition zero_binding :: binding where
  "zero_binding = \<lparr>bd_id = '''', bd_canonical_root = '''', bd_aliases = [], bd_default_capture_policy = '''', bd_hook_installed = False\<rparr>"

definition resolved_binding :: "project \<Rightarrow> vault \<Rightarrow> store_error + binding" where
  "resolved_binding p v =
     (case binding_root p v of
        Inl e \<Rightarrow> Inl e
      | Inr proj \<Rightarrow>
          let loc = look zero_binding (v_bindings v) proj;
              resolved = (\<lambda>refs policy. case merge_aliases (manifest_aliases refs) (bd_aliases loc) of
                 Inl e \<Rightarrow> Inl e
               | Inr aliases \<Rightarrow> Inr \<lparr>bd_id = bd_id loc, bd_canonical_root = proj, bd_aliases = aliases,
                   bd_default_capture_policy = (if bd_default_capture_policy loc = [] \<and> policy \<noteq> [] then policy
                                               else bd_default_capture_policy loc),
                   bd_hook_installed = bd_hook_installed loc\<rparr>)
          in (case pj_manifest p proj of
                BadManifest e \<Rightarrow> Inl (ManifestError e)
              | NoManifest \<Rightarrow> resolved [] []
              | Loaded m \<Rightarrow> resolved (rm_references m) (rm_default_capture_policy m)))"

record visible_reference =
  vr_classification :: string
  vr_alias :: string
  vr_item_name :: string
  vr_named_reference :: string
  vr_kind :: string
  vr_policy_level :: string
  vr_lease_status :: string

fun visible_references :: "string \<Rightarrow> vault \<Rightarrow> string gomap \<Rightarrow> store_error + visible_reference list" where
  "visible_references proj v [] = Inr []"
| "visible_references proj v ((a, name) # rest) =
     (case get_item name v of
        None \<Rightarrow> Inl (MissingBindingItem proj a name)
      | Some it \<Rightarrow> bind_r (visible_references proj v rest) (\<lambda>refs. Inr (
          \<lparr>vr_classification = effective_classification it, vr_alias = a, vr_item_name = it_name it,
           vr_named_reference = named_reference (it_name it), vr_kind = it_kind it,
           vr_policy_level = normalize_policy (im_policy (it_metadata it)), vr_lease_status = ''inactive''\<rparr> # refs)))"

definition resolve_binding_view :: "project \<Rightarrow> vault \<Rightarrow> store_error + binding \<times> visible_reference list" where
  "resolve_binding_view p v =
     bind_r (resolved_binding p v) (\<lambda>b.
       bind_r (visible_references (bd_canonical_root b) v (bd_aliases b)) (\<lambda>refs. Inr (b, sort_on vr_alias refs)))"

section \<open>References\<close>

record resolved_reference =
  rr_reference :: string
  rr_alias :: string
  rr_named_reference :: string
  rr_item_name :: string
  rr_item_kind :: string

text \<open>The least alias of an item; the empty alias counts as none found yet.\<close>

definition binding_alias_for_item :: "string gomap \<Rightarrow> string \<Rightarrow> string" where
  "binding_alias_for_item aliases name =
     fold (\<lambda>(a, existing) best. if existing \<noteq> name then best else if best = [] \<or> a < best then a else best) aliases []"

definition resolved :: "string \<Rightarrow> string \<Rightarrow> item \<Rightarrow> resolved_reference" where
  "resolved ref a it = \<lparr>rr_reference = ref, rr_alias = a, rr_named_reference = named_reference (it_name it),
     rr_item_name = it_name it, rr_item_kind = it_kind it\<rparr>"

definition resolve_reference :: "project \<Rightarrow> string \<Rightarrow> vault \<Rightarrow> store_error + resolved_reference" where
  "resolve_reference p reference v =
     bind_r (resolved_binding p v) (\<lambda>b.
       let ref = trim reference in
       if ref = [] then Inl ReferenceNotFound
       else (case map_of (bd_aliases b) ref of
           Some name \<Rightarrow> (case get_item name v of None \<Rightarrow> Inl ItemNotFound | Some it \<Rightarrow> Inr (resolved ref ref it))
         | None \<Rightarrow>
       (case parse_named_reference ref of
           None \<Rightarrow> Inl ReferenceNotFound
         | Some name \<Rightarrow>
             if name = [] then Inl ReferenceNotFound
             else (let a = binding_alias_for_item (bd_aliases b) name in
               if a = [] then
                 (case get_item name v of Some _ \<Rightarrow> Inl (ReferenceNotExposed ref name) | None \<Rightarrow> Inl ReferenceNotFound)
               else (case get_item name v of None \<Rightarrow> Inl ItemNotFound | Some it \<Rightarrow> Inr (resolved ref a it))))))"

fun resolve_references :: "project \<Rightarrow> string list \<Rightarrow> vault \<Rightarrow> store_error + resolved_reference list" where
  "resolve_references p [] v = Inr []"
| "resolve_references p (r # rs) v =
     bind_r (resolve_reference p r v) (\<lambda>x. bind_r (resolve_references p rs v) (\<lambda>xs. Inr (x # xs)))"

definition resolve_reference_item :: "project \<Rightarrow> string \<Rightarrow> vault \<Rightarrow> store_error + item" where
  "resolve_reference_item p reference v =
     bind_r (resolve_reference p reference v) (\<lambda>r.
       case get_item (rr_item_name r) v of None \<Rightarrow> Inl ItemNotFound | Some it \<Rightarrow> Inr it)"

section \<open>Exposure\<close>

definition item_exposures :: "string \<Rightarrow> vault \<Rightarrow> (string \<times> string) list" where
  "item_exposures name v =
     sort_by (\<lambda>a b. fst a < fst b \<or> (fst a = fst b \<and> snd a < snd b))
       (concat (map (\<lambda>(proj, b). map (\<lambda>(a, _). (proj, a)) (filter (\<lambda>(_, existing). existing = name) (bd_aliases b)))
          (v_bindings v)))"

text \<open>\<open>HideItemFromProject\<close>; the first component lists the removed references.\<close>

definition hide_item_from_project ::
    "io \<Rightarrow> project \<Rightarrow> string \<Rightarrow> sys \<Rightarrow> (store_error + string list) \<times> sys" where
  "hide_item_from_project io p name s =
     (case pj_root p of
        None \<Rightarrow> (Inl ProjectPathError, s)
      | Some proj \<Rightarrow>
     (case map_of (v_bindings (mem s)) proj of
        None \<Rightarrow> (Inr [], s)
      | Some b \<Rightarrow>
          let removed = map fst (keep (\<lambda>_ existing. existing = name) (bd_aliases b)) in
          if removed = [] then (Inr [], s)
          else (case persist_and_log io ''binding.alias_hide''
                  [(''root'', DStr proj), (''item'', DStr name), (''references'', DStrs (sort_strings removed))]
                  (s\<lparr>mem := (mem s)\<lparr>v_bindings := put proj
                     (b\<lparr>bd_aliases := keep (\<lambda>_ existing. existing \<noteq> name) (bd_aliases b)\<rparr>) (v_bindings (mem s))\<rparr>\<rparr>) of
               (None, s') \<Rightarrow> (Inr (sort_strings removed), s') | (Some e, s') \<Rightarrow> (Inl e, s'))))"

section \<open>Capture and import\<close>

definition no_metadata :: item_metadata where
  "no_metadata = \<lparr>im_notes = '''', im_tags = [], im_project_bindings = [], im_human_label = '''', im_policy = ''''\<rparr>"

record capture_result =
  cr_reference :: string
  cr_alias :: string
  cr_item_name :: string
  cr_item_kind :: string

text \<open>\<open>Capture\<close>: two mutations in sequence, each with its own file-system outcome and random id.\<close>

definition capture ::
    "io \<Rightarrow> io \<Rightarrow> (nat \<Rightarrow> time) \<Rightarrow> string option \<Rightarrow> string option \<Rightarrow> project \<Rightarrow> string \<Rightarrow> string \<Rightarrow> string \<Rightarrow> bool
      \<Rightarrow> sys \<Rightarrow> (store_error + capture_result) \<times> sys" where
  "capture io1 io2 clock rnd1 rnd2 p name kind value bind_it s =
     (let finish = (\<lambda>it r s. (Inr r, append_audit ''capture'' ''system''
            [(''item_name'', DStr (it_name it)), (''reference'', DStr (cr_reference r))] s))
      in case upsert_item io1 clock rnd1 name kind value no_metadata s of
           (Inl e, s1) \<Rightarrow> (Inl e, s1)
         | (Inr it, s1) \<Rightarrow>
             let r = \<lparr>cr_reference = it_name it, cr_alias = '''', cr_item_name = it_name it, cr_item_kind = it_kind it\<rparr>
             in if \<not> bind_it then finish it r s1
                else (case bind_item_alias io2 rnd2 p (it_name it) s1 of
                    (Inl e, s2) \<Rightarrow> (Inl e, s2)
                  | (Inr a, s2) \<Rightarrow> finish it (r\<lparr>cr_reference := a, cr_alias := a\<rparr>) s2))"

text \<open>\<open>ParseDotEnv\<close> on the lines of the file; \<open>unquote\<close> is \<open>strconv.Unquote\<close>. A failed read of the
  file is \<open>None\<close> at that point.\<close>

definition dotenv_value :: "(string \<Rightarrow> string option) \<Rightarrow> string \<Rightarrow> string" where
  "dotenv_value unquote value =
     (case unquote value of
        Some u \<Rightarrow> u
      | None \<Rightarrow> if 2 \<le> length value \<and> hd value = CHR 0x27 \<and> last value = CHR 0x27
                then butlast (tl value) else value)"

definition dotenv_line :: "(string \<Rightarrow> string option) \<Rightarrow> string \<Rightarrow> string + (string \<times> string) option" where
  "dotenv_line unquote raw =
     (let line = trim raw;
          body = (if prefix ''export '' line then drop (length ''export '') line else line)
      in if line = [] \<or> hd line = CHR ''#'' then Inr None
         else (case cut_at CHR ''='' body of
             None \<Rightarrow> Inl body
           | Some (key, value) \<Rightarrow> Inr (Some (trim key, dotenv_value unquote (trim value)))))"

fun parse_dotenv :: "(string \<Rightarrow> string option) \<Rightarrow> string list \<Rightarrow> string + (string \<times> string) list" where
  "parse_dotenv unquote [] = Inr []"
| "parse_dotenv unquote (l # ls) =
     bind_r (dotenv_line unquote l) (\<lambda>e. bind_r (parse_dotenv unquote ls) (\<lambda>es.
       Inr ((case e of None \<Rightarrow> [] | Some kv \<Rightarrow> [kv]) @ es)))"

definition parse_dotenv_map :: "(string \<Rightarrow> string option) \<Rightarrow> string list \<Rightarrow> string + string gomap" where
  "parse_dotenv_map unquote ls =
     bind_r (parse_dotenv unquote ls) (\<lambda>es. Inr (fold (\<lambda>(k, v). put k v) es []))"

text \<open>The loop of \<open>ImportEnvFile\<close> over the parsed entries; round \<open>i\<close> has its own file-system outcome,
  clock readings and random id \<open>envs i\<close>.\<close>

fun import_entries ::
    "(nat \<Rightarrow> io \<times> (nat \<Rightarrow> time) \<times> string option) \<Rightarrow> nat \<Rightarrow> (string \<times> string) list \<Rightarrow> sys \<Rightarrow> (store_error + item list) \<times> sys" where
  "import_entries envs i [] s = (Inr [], s)"
| "import_entries envs i ((key, value) # es) s =
     (case envs i of (io, clock, rnd) \<Rightarrow>
     (case upsert_item io clock rnd key ''kv'' value no_metadata s of
        (Inl e, s') \<Rightarrow> (Inl e, s')
      | (Inr it, s') \<Rightarrow> (case import_entries envs (Suc i) es s' of
          (Inl e, s'') \<Rightarrow> (Inl e, s'') | (Inr its, s'') \<Rightarrow> (Inr (it # its), s''))))"

section \<open>The password policy\<close>

text \<open>\<open>runes\<close> is \<open>len([]rune(password))\<close>.\<close>

definition uniform_password :: "string \<Rightarrow> bool" where
  "uniform_password pw = (case pw of [] \<Rightarrow> False | c # cs \<Rightarrow> list_all (\<lambda>d. d = c) cs)"

datatype password_error = PasswordTooShort nat | PasswordUniform

definition min_password_length :: nat where
  "min_password_length = 12"

definition enforce_password_policy :: "nat \<Rightarrow> string \<Rightarrow> password_error option" where
  "enforce_password_policy runes pw =
     (if runes < min_password_length then Some (PasswordTooShort min_password_length)
      else if uniform_password pw then Some PasswordUniform else None)"

section \<open>Facts\<close>

text \<open>The invariant of the items: keys are ids and no two entries, deleted ones included, share a name.\<close>

definition items_ok :: "vault \<Rightarrow> bool" where
  "items_ok v \<longleftrightarrow> wf_map (v_items v) \<and>
     (\<forall>k it. map_of (v_items v) k = Some it \<longrightarrow> it_id it = k) \<and>
     (\<forall>k k' it it'. map_of (v_items v) k = Some it \<longrightarrow> map_of (v_items v) k' = Some it' \<longrightarrow>
        it_name it = it_name it' \<longrightarrow> k = k')"

lemma items_okD:
  assumes "items_ok v"
  shows "wf_map (v_items v)" "map_of (v_items v) k = Some it \<Longrightarrow> it_id it = k"
    "map_of (v_items v) k = Some it \<Longrightarrow> map_of (v_items v) k' = Some it' \<Longrightarrow> it_name it = it_name it' \<Longrightarrow> k = k'"
  using assms unfolding items_ok_def by blast+

lemma option_eqI: "(\<And>x. a = Some x \<longleftrightarrow> b = Some x) \<Longrightarrow> a = b"
  by (cases a; cases b) auto

lemma get_item_iff:
  assumes "items_ok v"
  shows "get_item n v = Some it \<longleftrightarrow>
    (\<exists>k. map_of (v_items v) k = Some it \<and> it_name it = n \<and> it_deleted_at it = None)"
proof
  assume "get_item n v = Some it"
  then have "it \<in> set (vals (v_items v)) \<and> it_name it = n \<and> it_deleted_at it = None"
    by (auto simp: get_item_def find_Some_iff)
  with items_okD(1) [OF assms] show "\<exists>k. map_of (v_items v) k = Some it \<and> it_name it = n \<and> it_deleted_at it = None"
    by (simp add: set_vals)
next
  assume "\<exists>k. map_of (v_items v) k = Some it \<and> it_name it = n \<and> it_deleted_at it = None"
  then obtain k where k: "map_of (v_items v) k = Some it" "it_name it = n" "it_deleted_at it = None" by blast
  then have "it \<in> set (vals (v_items v))" using items_okD(1) [OF assms] by (auto simp: set_vals)
  with k obtain it' where get: "get_item n v = Some it'"
    unfolding get_item_def by (cases "find (\<lambda>it. it_name it = n \<and> it_deleted_at it = None) (vals (v_items v))")
      (auto simp: find_None_iff)
  then have "it' \<in> set (vals (v_items v))" "it_name it' = n" by (auto simp: get_item_def find_Some_iff)
  then obtain k' where "map_of (v_items v) k' = Some it'" using items_okD(1) [OF assms] by (auto simp: set_vals)
  with items_okD(3) [OF assms k(1)] k get \<open>it_name it' = n\<close> show "get_item n v = Some it" by auto
qed

lemma entry_named_Some:
  "items_ok v \<Longrightarrow> entry_named n v = Some (k, it) \<Longrightarrow> map_of (v_items v) k = Some it \<and> it_name it = n"
  by (auto simp: entry_named_def items_okD(1) dest!: find_SomeD simp flip: in_set_iff_map_of)

lemma entry_named_None:
  "items_ok v \<Longrightarrow> entry_named n v = None \<Longrightarrow> map_of (v_items v) k = Some it \<Longrightarrow> it_name it \<noteq> n"
  by (auto simp: entry_named_def find_None_iff dest: map_of_SomeD)

text \<open>Storing an item under its id keeps the invariant when its name is not taken by another entry, and
  decides what later lookups find.\<close>

lemma put_item_ok:
  assumes ok: "items_ok v" and "it_id it = k"
    and name: "\<And>k' it'. map_of (v_items v) k' = Some it' \<Longrightarrow> it_name it' = it_name it \<Longrightarrow> k' = k"
  shows "items_ok (v\<lparr>v_items := put k it (v_items v), v_bindings := bs\<rparr>)"
  unfolding items_ok_def
proof (intro conjI allI impI)
  fix a b x y
  assume a: "map_of (v_items (v\<lparr>v_items := put k it (v_items v), v_bindings := bs\<rparr>)) a = Some x"
    and b: "map_of (v_items (v\<lparr>v_items := put k it (v_items v), v_bindings := bs\<rparr>)) b = Some y"
    and eq: "it_name x = it_name y"
  consider "a = k" | "a \<noteq> k" "b = k" | "a \<noteq> k" "b \<noteq> k" by blast
  then show "a = b"
  proof cases
    case 1
    with a b eq name [of b y] show ?thesis by (auto split: if_splits)
  next
    case 2
    with a b eq name [of a x] show ?thesis by auto
  next
    case 3
    with a b eq items_okD(3) [OF ok, of a x b y] show ?thesis by simp
  qed
qed (use assms items_okD(1,2) [OF ok] in \<open>auto split: if_splits\<close>)

lemma get_put_item:
  assumes ok: "items_ok v" and "it_id it = k"
    and name: "\<And>k' it'. map_of (v_items v) k' = Some it' \<Longrightarrow> it_name it' = it_name it \<Longrightarrow> k' = k"
    and same: "\<And>old. map_of (v_items v) k = Some old \<Longrightarrow> it_name old = it_name it"
  shows "get_item n (v\<lparr>v_items := put k it (v_items v), v_bindings := bs\<rparr>) =
    (if n = it_name it then (if it_deleted_at it = None then Some it else None) else get_item n v)"
proof -
  let ?v = "v\<lparr>v_items := put k it (v_items v), v_bindings := bs\<rparr>"
  have ok': "items_ok ?v" by (rule put_item_ok [OF ok assms(2) name])
  have iff: "get_item n ?v = Some x \<longleftrightarrow>
      (if n = it_name it then x = it \<and> it_deleted_at it = None else get_item n v = Some x)" for x
  proof (cases "n = it_name it")
    case True
    have "map_of (v_items v) j = Some x \<Longrightarrow> it_name x = it_name it \<Longrightarrow> j = k" for j by (rule name)
    with True show ?thesis unfolding get_item_iff [OF ok'] by (auto split: if_splits)
  next
    case False
    have "map_of (v_items v) k = Some x \<Longrightarrow> it_name x \<noteq> n" using same False by auto
    then have "map_of (put k it (v_items v)) j = Some x \<and> it_name x = n \<and> it_deleted_at x = None \<longleftrightarrow>
        map_of (v_items v) j = Some x \<and> it_name x = n \<and> it_deleted_at x = None" for j
      using False by (cases "j = k") auto
    with False show ?thesis unfolding get_item_iff [OF ok'] get_item_iff [OF ok] by simp
  qed
  show ?thesis
    by (rule option_eqI) (auto simp add: iff)
qed

lemma get_item_entry:
  "get_item n v = Some it \<Longrightarrow> \<exists>k. find (\<lambda>e. it_name (snd e) = n \<and> it_deleted_at (snd e) = None) (v_items v) = Some (k, it)"
proof -
  have "find P (map snd xs) = map_option snd (find (\<lambda>e. P (snd e)) xs)" for P and xs :: "(string \<times> item) list"
    by (induction xs) auto
  then show "get_item n v = Some it \<Longrightarrow> ?thesis" by (auto simp: get_item_def vals_def)
qed

lemma upsert_item_InrD:
  assumes "upsert_item io clock rnd raw kind value metadata s = (Inr it, s')"
  shows "it_name it = trim raw \<and> trim raw \<noteq> [] \<and> it_value it = value \<and> it_kind it = kind \<and> it_metadata it = metadata
    \<and> it_deleted_at it = None \<and> it_classification it \<noteq> ''configuration''
    \<and> (\<exists>key. mem s' = (mem s)\<lparr>v_items := put key it (v_items (mem s))\<rparr> \<and> disk s' = Some (mem s')
        \<and> (case entry_named (trim raw) (mem s) of
             Some (k, old) \<Rightarrow> key = k \<and> it_id it = it_id old | None \<Rightarrow> rnd = Some key \<and> it_id it = key))"
proof -
  from assms have guards: "trim raw \<noteq> []" "\<not> (kind \<noteq> ''kv'' \<and> kind \<noteq> ''file'')"
    by (auto simp: upsert_item_def Let_def split: if_splits)
  show ?thesis
  proof (cases "entry_named (trim raw) (mem s)")
    case (Some e)
    obtain k old where e: "e = (k, old)" by force
    with Some have "it_name old = trim raw" by (auto simp: entry_named_def dest!: find_SomeD)
    with assms guards Some e show ?thesis
      by (auto simp: upsert_item_def Let_def split: prod.splits option.splits dest!: persist_and_log_okD)
  next
    case None
    with assms guards show ?thesis
      by (cases rnd) (auto simp: upsert_item_def Let_def split: prod.splits option.splits dest!: persist_and_log_okD)
  qed
qed

text \<open>Ids are minted fresh.\<close>

definition fresh_id :: "string option \<Rightarrow> vault \<Rightarrow> bool" where
  "fresh_id rnd v = (case rnd of None \<Rightarrow> True | Some key \<Rightarrow> map_of (v_items v) key = None)"

lemma upsert_item_effect:
  assumes run: "upsert_item io clock rnd raw kind value metadata s = (Inr it, s')"
    and ok: "items_ok (mem s)" and fresh: "fresh_id rnd (mem s)"
  shows "items_ok (mem s')" and "get_item n (mem s') = (if n = trim raw then Some it else get_item n (mem s))"
proof -
  from upsert_item_InrD [OF run] obtain key where
    it: "it_name it = trim raw" "it_deleted_at it = None" and m: "mem s' = (mem s)\<lparr>v_items := put key it (v_items (mem s))\<rparr>"
    and key: "case entry_named (trim raw) (mem s) of
             Some (k, old) \<Rightarrow> key = k \<and> it_id it = it_id old | None \<Rightarrow> rnd = Some key \<and> it_id it = key" by blast
  have bs: "mem s' = (mem s)\<lparr>v_items := put key it (v_items (mem s)), v_bindings := v_bindings (mem s)\<rparr>"
    using m by simp
  have "it_id it = key \<and> (\<forall>k' it'. map_of (v_items (mem s)) k' = Some it' \<longrightarrow> it_name it' = it_name it \<longrightarrow> k' = key)
      \<and> (\<forall>old. map_of (v_items (mem s)) key = Some old \<longrightarrow> it_name old = it_name it)"
  proof (cases "entry_named (trim raw) (mem s)")
    case (Some e)
    obtain k old where e: "e = (k, old)" by force
    with entry_named_Some [OF ok] Some key it items_okD(2,3) [OF ok] show ?thesis by fastforce
  next
    case None
    with entry_named_None [OF ok None] key fresh it show ?thesis by (auto simp: fresh_id_def)
  qed
  then have h: "it_id it = key" "\<And>k' it'. map_of (v_items (mem s)) k' = Some it' \<Longrightarrow> it_name it' = it_name it \<Longrightarrow> k' = key"
    "\<And>old. map_of (v_items (mem s)) key = Some old \<Longrightarrow> it_name old = it_name it" by blast+
  show "items_ok (mem s')" unfolding bs by (rule put_item_ok [OF ok h(1,2)])
  show "get_item n (mem s') = (if n = trim raw then Some it else get_item n (mem s))"
    unfolding bs by (subst get_put_item [OF ok h(1)]) (use h(2,3) it in \<open>blast | simp\<close>)+
qed

lemma delete_item_effect:
  assumes run: "delete_item io now name s = (None, s')" and ok: "items_ok (mem s)"
  shows "items_ok (mem s')" and "get_item n (mem s') = (if n = name then None else get_item n (mem s))"
    and "v_bindings (mem s') = remove_item_from_bindings name (v_bindings (mem s))" and "disk s' = Some (mem s')"
proof -
  from run obtain key it where f: "find (\<lambda>e. it_name (snd e) = name \<and> it_deleted_at (snd e) = None) (v_items (mem s)) = Some (key, it)"
    by (auto simp: delete_item_def split: option.splits)
  then have it: "map_of (v_items (mem s)) key = Some it" "it_name it = name"
    using items_okD(1) [OF ok] by (auto dest!: find_SomeD simp flip: in_set_iff_map_of)
  let ?it = "it\<lparr>it_deleted_at := Some now, it_updated_at := now\<rparr>"
  have m: "mem s' = (mem s)\<lparr>v_items := put key ?it (v_items (mem s)),
      v_bindings := remove_item_from_bindings name (v_bindings (mem s))\<rparr> \<and> disk s' = Some (mem s')"
    using run f by (auto simp: delete_item_def dest!: persist_and_log_okD)
  have h: "it_id ?it = key" "\<And>k' it'. map_of (v_items (mem s)) k' = Some it' \<Longrightarrow> it_name it' = it_name ?it \<Longrightarrow> k' = key"
    "\<And>old. map_of (v_items (mem s)) key = Some old \<Longrightarrow> it_name old = it_name ?it"
    using it items_okD(2,3) [OF ok] by auto
  show "items_ok (mem s')" using m put_item_ok [OF ok h(1,2)] by simp
  show "get_item n (mem s') = (if n = name then None else get_item n (mem s))"
    using m get_put_item [OF ok h] it by simp
  show "v_bindings (mem s') = remove_item_from_bindings name (v_bindings (mem s))" "disk s' = Some (mem s')"
    using m by simp_all
qed

lemma alias_loop_fresh: "map_of m (alias_loop p m i) = None"
proof (induction p m i rule: alias_loop.induct)
  case (1 p m i)
  then show ?case by (subst alias_loop.simps) auto
qed

lemma alias_loop_least:
  "\<exists>j. alias_loop p m i = neutral_alias p j \<and> i \<le> j \<and> (\<forall>k. i \<le> k \<longrightarrow> k < j \<longrightarrow> map_of m (neutral_alias p k) \<noteq> None)"
proof (induction p m i rule: alias_loop.induct)
  case (1 p m i)
  show ?case
  proof (cases "map_of m (neutral_alias p i) = None")
    case True
    then show ?thesis by (intro exI [of _ i]) (simp add: alias_loop.simps [of p m i])
  next
    case False
    with 1 obtain j where j: "alias_loop p m (Suc i) = neutral_alias p j" "Suc i \<le> j"
      "\<forall>k. Suc i \<le> k \<longrightarrow> k < j \<longrightarrow> map_of m (neutral_alias p k) \<noteq> None" by blast
    have "map_of m (neutral_alias p k) \<noteq> None" if "i \<le> k" "k < j" for k
      using j(3) False that by (cases "k = i") auto
    with j False show ?thesis by (intro exI [of _ j]) (simp add: alias_loop.simps [of p m i])
  qed
qed

lemma binding_alias_found:
  "binding_alias_for_item aliases name \<noteq> [] \<Longrightarrow> (binding_alias_for_item aliases name, name) \<in> set aliases"
proof -
  have "\<lbrakk>fold (\<lambda>(a, existing) best. if existing \<noteq> name then best else if best = [] \<or> a < best then a else best) xs b \<noteq> [];
      b \<noteq> [] \<Longrightarrow> (b, name) \<in> set aliases; set xs \<subseteq> set aliases\<rbrakk> \<Longrightarrow>
    (fold (\<lambda>(a, existing) best. if existing \<noteq> name then best else if best = [] \<or> a < best then a else best) xs b, name) \<in> set aliases"
    for xs b
    by (induction xs arbitrary: b) (auto split: if_splits)
  from this [of aliases "[]"] show "binding_alias_for_item aliases name \<noteq> [] \<Longrightarrow> ?thesis"
    by (simp add: binding_alias_for_item_def)
qed

lemma merge_aliases_wf: "merge_aliases acc m = Inr r \<Longrightarrow> wf_map acc \<Longrightarrow> wf_map r"
  by (induction acc m arbitrary: r rule: merge_aliases.induct) (auto split: option.splits if_splits)

lemma manifest_aliases_wf: "wf_map (manifest_aliases refs)"
proof -
  have "wf_map m \<Longrightarrow> wf_map (fold (\<lambda>r m. if trim (mf_alias r) = [] \<or> trim (mf_item r) = [] then m else put (mf_alias r) (mf_item r) m) refs m)" for m
    by (induction refs arbitrary: m) auto
  then show ?thesis by (simp add: manifest_aliases_def)
qed

lemma resolved_binding_wf: "resolved_binding p v = Inr b \<Longrightarrow> wf_map (bd_aliases b)"
  by (auto simp: resolved_binding_def Let_def manifest_aliases_wf
      split: sum.splits manifest_load.splits dest!: merge_aliases_wf)

section \<open>Properties\<close>

text \<open>An upsert that succeeds makes the trimmed name read back with the given value, kind and metadata,
  confidential, from the handle whose state is in the file; every other name reads as before and the
  items stay uniquely named.\<close>

theorem item_upsert_get:
  assumes "items_ok (mem s)" and "fresh_id rnd (mem s)"
    and "upsert_item io clock rnd raw kind value metadata s = (Inr it, s')"
  shows "items_ok (mem s') \<and> disk s' = Some (mem s') \<and> get_item (trim raw) (mem s') = Some it
    \<and> it_value it = value \<and> it_kind it = kind \<and> it_metadata it = metadata \<and> confidential it
    \<and> (\<forall>n. get_item n (mem s') = (if n = trim raw then Some it else get_item n (mem s)))"
  using upsert_item_InrD [OF assms(3)] upsert_item_effect [OF assms(3,1,2)]
  by (auto simp: confidential_def effective_classification_def)

definition sample_store :: sys where
  "sample_store = \<lparr>mem = empty_vault, disk = Some empty_vault, trail = []\<rparr>"

definition sample_stored :: "(store_error + item) \<times> sys" where
  "sample_stored = upsert_item io_ok (\<lambda>_. 5) (Some ''aa'') '' db '' ''kv'' ''hunter'' no_metadata sample_store"

lemma sample_stored_ok: "\<exists>it s'. sample_stored = (Inr it, s')"
  by (simp add: sample_stored_def sample_store_def upsert_item_def entry_named_def persist_and_log_def persist_def
      io_ok_def empty_vault_def Let_def trim_def trim_left_def trim_right_def strip_all.simps strip_one_def space_encodings_def)

lemma sample_store_items: "items_ok (mem sample_store)" "fresh_id (Some ''aa'') (mem sample_store)"
  by (simp_all add: items_ok_def fresh_id_def sample_store_def empty_vault_def)

theorem item_upsert_get_witness:
  "\<exists>it s'. sample_stored = (Inr it, s') \<and> get_item (trim '' db '') (mem s') = Some it \<and> it_value it = ''hunter''"
proof -
  obtain it s' where run: "sample_stored = (Inr it, s')" using sample_stored_ok by blast
  from item_upsert_get [OF sample_store_items run [unfolded sample_stored_def]] run show ?thesis by blast
qed

text \<open>A deletion that succeeds removes the name and every alias of it, leaves every other item and the
  aliases of other items, and keeps the items uniquely named.\<close>

theorem item_delete:
  assumes "items_ok (mem s)" and "delete_item io now name s = (None, s')"
  shows "items_ok (mem s') \<and> disk s' = Some (mem s') \<and> item_exposures name (mem s') = []
    \<and> (\<forall>n. get_item n (mem s') = (if n = name then None else get_item n (mem s)))
    \<and> (\<forall>proj. map_option (\<lambda>b. filter (\<lambda>e. snd e \<noteq> name) (bd_aliases b)) (map_of (v_bindings (mem s)) proj)
             = map_option bd_aliases (map_of (v_bindings (mem s')) proj))"
proof -
  note d = delete_item_effect [OF assms(2,1)]
  have "item_exposures name (mem s') = []"
  proof -
    have "set (item_exposures name (mem s')) = {}"
      by (auto simp: item_exposures_def d(3) remove_item_from_bindings_def map_vals_def keep_def)
    then show ?thesis by simp
  qed
  moreover have "map_option (\<lambda>b. filter (\<lambda>e. snd e \<noteq> name) (bd_aliases b)) (map_of (v_bindings (mem s)) proj)
             = map_option bd_aliases (map_of (v_bindings (mem s')) proj)" for proj
    by (cases "map_of (v_bindings (mem s)) proj")
      (simp_all add: d(3) remove_item_from_bindings_def keep_def case_prod_unfold)
  ultimately show ?thesis using d(1,2,4) by blast
qed

theorem item_delete_witness:
  "\<exists>it s1 s2. sample_stored = (Inr it, s1) \<and> delete_item io_ok 9 (it_name it) s1 = (None, s2) \<and> get_item (it_name it) (mem s2) = None"
proof -
  obtain it s1 where run: "sample_stored = (Inr it, s1)" using sample_stored_ok by blast
  note u = item_upsert_get [OF sample_store_items run [unfolded sample_stored_def]]
  have name: "it_name it = trim '' db ''" using upsert_item_InrD [OF run [unfolded sample_stored_def]] by blast
  with u get_item_entry [of "it_name it" "mem s1" it] obtain k
    where "find (\<lambda>e. it_name (snd e) = it_name it \<and> it_deleted_at (snd e) = None) (v_items (mem s1)) = Some (k, it)"
    by auto
  then obtain s2 where del: "delete_item io_ok 9 (it_name it) s1 = (None, s2)"
    using u by (auto simp: delete_item_def persist_and_log_def persist_def io_ok_def)
  have "get_item (it_name it) (mem s2) = None" using item_delete [OF _ del] u by simp
  with run del show ?thesis by blast
qed

text \<open>A classification set by the operator is the effective one afterwards and touches nothing else,
  the returned item carries no value, and the next upsert of the name makes it confidential again.\<close>

theorem classification_set_and_reset:
  assumes "items_ok d" and "disk s = Some d"
    and "set_item_classification io now name classification s = (Inr it, s1)"
    and "trim name = name" and "fresh_id rnd (mem s1)"
    and "upsert_item io2 clock rnd name kind value metadata s1 = (Inr it2, s2)"
  shows "classification \<in> {''confidential'', ''configuration''} \<and> it_value it = []
    \<and> map_option effective_classification (get_item name (mem s1)) = Some classification
    \<and> map_option it_value (get_item name (mem s1)) = map_option it_value (get_item name d)
    \<and> map_option effective_classification (get_item name (mem s2)) = Some ''confidential''"
proof -
  from assms(3) have cl: "classification \<in> {''confidential'', ''configuration''}"
    by (auto simp: set_item_classification_def split: if_splits)
  obtain e s0 where ref: "refresh_state io s = (e, s0)" by force
  note r = refresh_eqE [OF ref]
  from assms(3) cl ref have e: "e = None" by (cases e) (auto simp: set_item_classification_def)
  with r assms(2) have s0: "mem s0 = read_state d" by simp
  have ok: "items_ok (mem s0)" using assms(1) by (simp add: s0 items_ok_def)
  from assms(3) cl ref e obtain old where old: "get_item name (mem s0) = Some old"
    by (auto simp: set_item_classification_def split: option.splits)
  then have old': "map_of (v_items (mem s0)) (it_id old) = Some old" "it_name old = name" "it_deleted_at old = None"
    using get_item_iff [OF ok] items_okD(2) [OF ok] by auto
  let ?it = "old\<lparr>it_classification := classification, it_updated_at := now\<rparr>"
  let ?v = "(mem s0)\<lparr>v_items := put (it_id old) ?it (v_items (mem s0))\<rparr>"
  obtain ep s3 where p: "persist io (s0\<lparr>mem := ?v\<rparr>) = (ep, s3)" by force
  have res: "it = ?it\<lparr>it_value := []\<rparr> \<and> mem s1 = ?v"
    using assms(3) cl ref e old p persist_eqE [OF p]
    by (cases ep) (auto simp: set_item_classification_def Let_def split: if_splits)
  have bs: "mem s1 = (mem s0)\<lparr>v_items := put (it_id old) ?it (v_items (mem s0)), v_bindings := v_bindings (mem s0)\<rparr>"
    using res by simp
  have h: "it_id ?it = it_id old"
    "\<And>k' it'. map_of (v_items (mem s0)) k' = Some it' \<Longrightarrow> it_name it' = it_name ?it \<Longrightarrow> k' = it_id old"
    "\<And>x. map_of (v_items (mem s0)) (it_id old) = Some x \<Longrightarrow> it_name x = it_name ?it"
    using old' items_okD(3) [OF ok] by auto
  have ok1: "items_ok (mem s1)" unfolding bs by (rule put_item_ok [OF ok h(1,2)])
  have get: "get_item name (mem s1) = Some ?it"
  proof -
    have "get_item name (mem s1) = (if name = it_name ?it then (if it_deleted_at ?it = None then Some ?it else None)
        else get_item name (mem s0))"
      unfolding bs by (rule get_put_item [OF ok h(1)]) (erule (1) h(2), erule h(3))
    with old' show ?thesis by simp
  qed
  have "get_item name (mem s2) = Some it2" "it_classification it2 \<noteq> ''configuration''"
    using upsert_item_effect(2) [OF assms(6) ok1 assms(5), of name] upsert_item_InrD [OF assms(6)] assms(4) by simp_all
  moreover have "get_item name d = Some old" using old s0 by (simp add: get_item_def)
  ultimately show ?thesis
    using cl res get by (auto simp: effective_classification_def)
qed

definition sample_item :: item where
  "sample_item = \<lparr>it_classification = '''', it_id = ''aa'', it_name = ''db'', it_kind = ''kv'', it_value = ''hunter'',
     it_metadata = no_metadata, it_created_at = 1, it_updated_at = 1, it_deleted_at = None\<rparr>"

definition sample_items :: sys where
  "sample_items = (let v = empty_vault\<lparr>v_items := [(''aa'', sample_item)]\<rparr> in \<lparr>mem = v, disk = Some v, trail = []\<rparr>)"

definition sample_classified :: "(store_error + item) \<times> sys" where
  "sample_classified = set_item_classification io_ok 8 ''db'' ''configuration'' sample_items"

definition sample_reset :: "(store_error + item) \<times> sys" where
  "sample_reset = upsert_item io_ok (\<lambda>_. 9) (Some ''bb'') ''db'' ''kv'' ''v2'' no_metadata (snd sample_classified)"

lemma not_isl_pair: "\<not> isl (fst r) \<Longrightarrow> r = (Inr (projr (fst r)), snd r)"
  by (cases r; cases "fst r") auto

theorem classification_set_and_reset_witness:
  "map_option effective_classification (get_item ''db'' (mem (snd sample_classified))) = Some ''configuration'' \<and>
   map_option effective_classification (get_item ''db'' (mem (snd sample_reset))) = Some ''confidential''"
proof -
  let ?d = "empty_vault\<lparr>v_items := [(''aa'', sample_item)]\<rparr>"
  have mem1: "v_items (mem (snd sample_classified)) = [(''aa'', sample_item\<lparr>it_classification := ''configuration'', it_updated_at := 8\<rparr>)]"
    and ok1: "\<not> isl (fst sample_classified)"
    by (simp_all add: sample_classified_def set_item_classification_def sample_items_def sample_item_def refresh_state_def
        io_ok_def get_item_def vals_def persist_def put_def Let_def)
  have ok2: "\<not> isl (fst sample_reset)"
    by (simp add: sample_reset_def upsert_item_def entry_named_def mem1 sample_item_def persist_and_log_def persist_def io_ok_def Let_def
        split: option.split)
      (simp add: sample_classified_def set_item_classification_def sample_items_def sample_item_def refresh_state_def
        io_ok_def get_item_def vals_def persist_def put_def Let_def)
  have "items_ok ?d" by (auto simp: items_ok_def sample_item_def wf_map_def)
  moreover have "fresh_id (Some ''bb'') (mem (snd sample_classified))" by (simp add: fresh_id_def mem1)
  moreover have "set_item_classification io_ok 8 ''db'' ''configuration'' sample_items
      = (Inr (projr (fst sample_classified)), snd sample_classified)"
    using not_isl_pair [OF ok1] unfolding sample_classified_def .
  moreover have "upsert_item io_ok (\<lambda>_. 9) (Some ''bb'') ''db'' ''kv'' ''v2'' no_metadata (snd sample_classified)
      = (Inr (projr (fst sample_reset)), snd sample_reset)"
    using not_isl_pair [OF ok2] unfolding sample_reset_def .
  moreover have "disk sample_items = Some ?d" by (simp add: sample_items_def Let_def)
  ultimately show ?thesis
    using classification_set_and_reset [of ?d sample_items io_ok 8 "''db''" "''configuration''" _ "snd sample_classified"
        "Some ''bb''" io_ok "\<lambda>_. 9" "''kv''" "''v2''" no_metadata _ "snd sample_reset"] by simp
qed

text \<open>The alias generator returns: its alias is the first of the numbered aliases of its kind that is not
  taken.\<close>

theorem neutral_alias_fresh:
  "map_of existing (generate_neutral_alias kind existing) = None \<and>
   (\<exists>j\<ge>1. generate_neutral_alias kind existing = neutral_alias (alias_prefix kind) j
      \<and> list_all (\<lambda>k. map_of existing (neutral_alias (alias_prefix kind) k) \<noteq> None) [1..<j])"
  using alias_loop_fresh [of existing "alias_prefix kind" 1] alias_loop_least [of "alias_prefix kind" existing 1]
  by (auto simp: generate_neutral_alias_def list_all_iff)

text \<open>C26: A reference resolves only to an item that is exposed to the project: the returned alias maps to it
  in the resolved binding and the item exists; a reference is reported as not exposed only for an
  existing item without an alias there.\<close>

theorem resolve_reference_exposed:
  "case resolve_reference p reference v of
     Inr r \<Rightarrow> (\<exists>b it. resolved_binding p v = Inr b \<and> map_of (bd_aliases b) (rr_alias r) = Some (it_name it)
        \<and> get_item (it_name it) v = Some it \<and> rr_item_name r = it_name it \<and> rr_item_kind r = it_kind it)
   | Inl (ReferenceNotExposed ref name) \<Rightarrow> (\<exists>b. resolved_binding p v = Inr b \<and> get_item name v \<noteq> None
        \<and> binding_alias_for_item (bd_aliases b) name = [] \<and> parse_named_reference reference = Some name)
   | Inl _ \<Rightarrow> True"
proof (cases "resolved_binding p v")
  case (Inl e)
  have "e \<noteq> ReferenceNotExposed x y" for x y
    using Inl
  proof -
    have merge: "merge_aliases a m = Inl e \<Longrightarrow> e \<noteq> ReferenceNotExposed x y" for a m
      by (induction a m rule: merge_aliases.induct) (auto split: option.splits if_splits)
    from Inl merge show ?thesis
      by (auto simp: resolved_binding_def binding_root_def Let_def split: sum.splits option.splits manifest_load.splits if_splits)
  qed
  with Inl show ?thesis by (auto simp: resolve_reference_def split: store_error.split)
next
  case (Inr b)
  have name: "get_item n v = Some it \<Longrightarrow> it_name it = n" for n it
    by (auto simp: get_item_def dest!: find_SomeD)
  have found: "binding_alias_for_item (bd_aliases b) n \<noteq> [] \<Longrightarrow>
      map_of (bd_aliases b) (binding_alias_for_item (bd_aliases b) n) = Some n" for n
    using binding_alias_found resolved_binding_wf [OF Inr] by (simp add: wf_map_def)
  have parse: "parse_named_reference (trim reference) = parse_named_reference reference"
    by (simp add: parse_named_reference_def)
  show ?thesis
    by (auto simp: resolve_reference_def Inr Let_def resolved_def parse split: option.split dest: name found)
qed

text \<open>Aliases are trimmed, not blank, and unique within a binding.\<close>

definition aliases_ok :: "string gomap \<Rightarrow> bool" where
  "aliases_ok m \<longleftrightarrow> wf_map m \<and> (\<forall>e\<in>set m. trim (fst e) = fst e \<and> fst e \<noteq> [])"

definition bindings_ok :: "vault \<Rightarrow> bool" where
  "bindings_ok v \<longleftrightarrow> (\<forall>proj b. map_of (v_bindings v) proj = Some b \<longrightarrow> aliases_ok (bd_aliases b))"

lemma merge_aliases_distinct:
  "wf_map m \<Longrightarrow> \<forall>k\<in>fst ` set m. map_of acc k = None \<Longrightarrow>
     \<exists>r. merge_aliases acc m = Inr r \<and> (\<forall>k. map_of r k = (case map_of m k of Some i \<Rightarrow> Some i | None \<Rightarrow> map_of acc k))"
proof (induction m arbitrary: acc)
  case (Cons p rest)
  obtain a i where p: "p = (a, i)" by force
  with Cons.prems have "wf_map rest" "\<forall>k\<in>fst ` set rest. map_of (put a i acc) k = None"
    and none: "map_of acc a = None" "map_of rest a = None"
    by (auto simp: wf_map_def map_of_eq_None_iff)
  from Cons.IH [OF this(1,2)] obtain r where "merge_aliases (put a i acc) rest = Inr r"
    and "\<forall>k. map_of r k = (case map_of rest k of Some i \<Rightarrow> Some i | None \<Rightarrow> map_of (put a i acc) k)"
    by blast
  then show ?case by (auto simp: p none split: option.split)
qed simp


lemma neutral_alias_trimmed: "trim (neutral_alias (alias_prefix kind) i) = neutral_alias (alias_prefix kind) i \<and> neutral_alias (alias_prefix kind) i \<noteq> []"
proof -
  have "visible (dec_nat i)" using visible_format_int [of "int i"] by (simp add: format_int_def)
  then have "visible (neutral_alias (alias_prefix kind) i)" by (simp add: neutral_alias_def alias_prefix_def)
  then show ?thesis by (simp add: neutral_alias_def)
qed

lemma resolves_bound_alias:
  assumes "binding_root p v = Inr proj" and "pj_manifest p proj = NoManifest"
    and "map_of (v_bindings v) proj = Some b" and "wf_map (bd_aliases b)" and "map_of (bd_aliases b) a = Some name"
    and "trim a = a" and "a \<noteq> []" and "get_item name v = Some it"
  shows "resolve_reference_item p a v = Inr it"
proof -
  have name: "it_name it = name" using assms(8) by (auto simp: get_item_def dest!: find_SomeD)
  from merge_aliases_distinct [OF assms(4), of "[]"] obtain r
    where "merge_aliases [] (bd_aliases b) = Inr r" "map_of r a = Some name" using assms(5) by auto
  then have "\<exists>rb. resolved_binding p v = Inr rb \<and> map_of (bd_aliases rb) a = Some name"
    using assms(1-3) by (simp add: resolved_binding_def manifest_aliases_def look_def Let_def)
  with assms(6-8) name show ?thesis
    by (auto simp: resolve_reference_item_def resolve_reference_def resolved_def Let_def)
qed

lemma bind_item_alias_resolves:
  assumes run: "bind_item_alias io rnd p name s = (Inr a, s')"
    and nomf: "\<forall>proj. pj_manifest p proj = NoManifest" and ok: "bindings_ok (mem s)"
  shows "\<exists>it. get_item name (mem s) = Some it \<and> resolve_reference_item p a (mem s') = Inr it \<and> v_items (mem s') = v_items (mem s)"
proof -
  from run obtain proj where proj: "binding_root p (mem s) = Inr proj"
    by (auto simp: bind_item_alias_def split: sum.splits)
  with run obtain it where it: "get_item name (mem s) = Some it"
    by (auto simp: bind_item_alias_def split: option.splits)
  then have name: "it_name it = name" by (auto simp: get_item_def dest!: find_SomeD)
  define sel where "sel = (case map_of (v_bindings (mem s)) proj of
              Some b \<Rightarrow> Some b
            | None \<Rightarrow> map_option (\<lambda>bid. \<lparr>bd_id = bid, bd_canonical_root = proj, bd_aliases = [],
                        bd_default_capture_policy = normalize_policy (im_policy (it_metadata it)),
                        bd_hook_installed = False\<rparr>) rnd)"
  from run proj it obtain b where b: "sel = Some b"
    unfolding bind_item_alias_def sel_def [symmetric] by (auto simp: sel_def [symmetric] split: option.splits)
  have aok: "aliases_ok (bd_aliases b)"
    using b ok by (auto simp: sel_def bindings_ok_def aliases_ok_def split: option.splits)
  show ?thesis
  proof (cases "find (\<lambda>e. snd e = it_name it) (bd_aliases b)")
    case (Some e)
    then have e: "e \<in> set (bd_aliases b)" "snd e = name" using name by (auto dest!: find_SomeD)
    from run proj it b Some have "a = fst e" "s' = s"
      by (auto simp: bind_item_alias_def sel_def [symmetric])
    moreover from b e have "map_of (v_bindings (mem s)) proj = Some b"
      by (auto simp: sel_def split: option.splits)
    ultimately show ?thesis
      using resolves_bound_alias [OF proj _ _ _ _ _ _ it, of b "fst e"] nomf aok e it
      by (cases e) (auto simp: aliases_ok_def in_set_iff_map_of [symmetric])
  next
    case None
    let ?a = "generate_neutral_alias (it_kind it) (bd_aliases b)"
    let ?b = "b\<lparr>bd_aliases := put ?a (it_name it) (bd_aliases b)\<rparr>"
    from run proj it b None have res: "a = ?a" "mem s' = (mem s)\<lparr>v_bindings := put proj ?b (v_bindings (mem s))\<rparr>"
      by (auto simp: bind_item_alias_def sel_def [symmetric] Let_def split: prod.splits option.splits dest!: persist_and_log_okD)
    have "binding_root p (mem s') = Inr proj"
      using proj by (auto simp: binding_root_def res split: option.splits if_splits)
    moreover obtain j where "?a = neutral_alias (alias_prefix (it_kind it)) j"
      using alias_loop_least by (metis generate_neutral_alias_def)
    then have "trim ?a = ?a" "?a \<noteq> []" using neutral_alias_trimmed by metis+
    moreover have "get_item name (mem s') = Some it" using it by (simp add: get_item_def res)
    ultimately show ?thesis
      using resolves_bound_alias [of p "mem s'" proj ?b ?a name it] nomf aok it name
      by (simp add: res aliases_ok_def)
  qed
qed


definition sample_project :: project where
  "sample_project = \<lparr>pj_exact = Some ''/p'', pj_root = Some ''/p'', pj_manifest = (\<lambda>_. NoManifest)\<rparr>"

definition sample_capture :: "(store_error + capture_result) \<times> sys" where
  "sample_capture = capture io_ok io_ok (\<lambda>_. 9) (Some ''bb'') (Some ''cc'') sample_project ''db'' ''kv'' ''v2'' True sample_items"


end
