(* ===== verification/AuditLog.thy ===== *)
theory AuditLog
  imports Prelude
begin

text \<open>
  The audit log of \<^verbatim>\<open>internal/audit/audit.go\<close> and the degradation flags of
  \<^verbatim>\<open>internal/runtime/audit_state.go\<close>.

  The log is a file of bytes, one JSON line per event, each event carrying the hash of the one
  before it. A \<open>Log\<close> value is a writer with a key and a cache of the last event; several of
  them, in several processes, append to one file under a lock. The JSON and hash functions are
  the fields of a \<open>codec\<close>; the laws the proofs need of them are the premises \<open>json_ok\<close> and
  \<open>collision_free\<close>. What the operating system answers in one call is an \<open>audit_io\<close>; a read
  error in the middle of a file counts as a failure to open it.
\<close>

section \<open>Events, log and file\<close>

record log_event =
  le_sequence :: int
  le_timestamp :: time
  le_type :: string
  le_actor :: string
  le_details :: string
  le_prev_hash :: string
  le_hash :: string
  le_scheme :: string

record codec =
  cd_line :: "log_event \<Rightarrow> string option"
  cd_read :: "string \<Rightarrow> log_event option"
  cd_payload :: "log_event \<Rightarrow> string"
  cd_sha :: "string \<Rightarrow> string"
  cd_hmac :: "string \<Rightarrow> string \<Rightarrow> string"

record file_state =
  fs_size :: nat
  fs_mod_unix_nano :: int
  fs_ctime_sec :: int
  fs_ctime_nsec :: int
  fs_dev :: int
  fs_ino :: int
  fs_cacheable :: bool

definition zero_file_state :: file_state where
  "zero_file_state = \<lparr>fs_size = 0, fs_mod_unix_nano = 0, fs_ctime_sec = 0, fs_ctime_nsec = 0, fs_dev = 0,
     fs_ino = 0, fs_cacheable = False\<rparr>"

record audit_log =
  al_key :: string
  al_last :: "log_event option"
  al_state :: file_state
  al_valid :: bool

definition new_log :: audit_log where
  "new_log = \<lparr>al_key = [], al_last = None, al_state = zero_file_state, al_valid = False\<rparr>"

definition with_key :: "string \<Rightarrow> audit_log \<Rightarrow> audit_log" where
  "with_key key lg = lg\<lparr>al_key := key\<rparr>"

datatype audit_error = CreateDirFailed | LockFailed | StatFailed | OpenFailed | TokenTooLong | DecodeFailed
  | EncodeFailed | WriteFailed | SequenceMismatch int | ChainMismatch int | KeyNotInstalled int
  | UnknownScheme int string | HashMismatch int

text \<open>The answers of the operating system during one call: the directory, the lock, the two
  \<open>Stat\<close> calls (before reading and after writing), opening for reading and for appending, the
  clock, and the bytes written when the write falls short.\<close>

record audit_io =
  ai_mkdir :: bool
  ai_lock :: bool
  ai_stat :: "file_state option"
  ai_open :: bool
  ai_now :: time
  ai_append :: bool
  ai_short_write :: "nat option"
  ai_stat_after :: "file_state option"

definition sized :: "string \<Rightarrow> file_state \<Rightarrow> file_state" where
  "sized bs st = st\<lparr>fs_size := length bs\<rparr>"

section \<open>Scanning lines\<close>

definition newline :: char where
  "newline = CHR 0x0A"

definition max_audit_line_bytes :: nat where
  "max_audit_line_bytes = 1048576"

text \<open>\<open>bufio.ScanLines\<close> over a buffer of at most \<open>limit\<close> bytes: the lines, and whether the scanner
  ended without \<open>ErrTooLong\<close>. A line and its newline have to fit in the buffer together.\<close>

definition drop_cr :: "string \<Rightarrow> string" where
  "drop_cr l = (if l \<noteq> [] \<and> last l = CHR 0x0D then butlast l else l)"

function scan_lines :: "nat \<Rightarrow> string \<Rightarrow> string list \<times> bool" where
  "scan_lines limit bs =
     (if bs = [] then ([], True)
      else (let l = takeWhile (\<lambda>c. c \<noteq> newline) bs in
        if limit \<le> length l then ([], False)
        else (case scan_lines limit (drop (Suc (length l)) bs) of (ls, fits) \<Rightarrow> (drop_cr l # ls, fits))))"
  by auto
termination by (relation "measure (length \<circ> snd)") auto

declare scan_lines.simps [simp del]

fun decode_lines :: "codec \<Rightarrow> string list \<Rightarrow> audit_error + log_event list" where
  "decode_lines cd [] = Inr []"
| "decode_lines cd (l # ls) =
     (case cd_read cd l of None \<Rightarrow> Inl DecodeFailed | Some e \<Rightarrow> map_sum id ((#) e) (decode_lines cd ls))"

definition read_events :: "codec \<Rightarrow> string \<Rightarrow> audit_error + log_event list" where
  "read_events cd bs =
     (case scan_lines max_audit_line_bytes bs of
        (ls, fits) \<Rightarrow> (case decode_lines cd ls of
            Inl e \<Rightarrow> Inl e | Inr es \<Rightarrow> if fits then Inr es else Inl TokenTooLong))"

definition events :: "codec \<Rightarrow> audit_io \<Rightarrow> string option \<Rightarrow> audit_error + log_event list" where
  "events cd io file =
     (case file of
        None \<Rightarrow> Inr []
      | Some bs \<Rightarrow> if \<not> ai_open io then Inl OpenFailed else read_events cd bs)"

section \<open>Hashes\<close>

text \<open>The payload covers six of the eight fields: not the hash itself, and not the scheme.\<close>

definition signed_part :: "log_event \<Rightarrow> log_event" where
  "signed_part e = e\<lparr>le_hash := [], le_scheme := []\<rparr>"

definition hash_event :: "codec \<Rightarrow> log_event \<Rightarrow> string \<Rightarrow> string \<times> string" where
  "hash_event cd e key =
     (let data = cd_payload cd (signed_part e) in
      if key = [] then (''sha256'', cd_sha cd data) else (''hmac-sha256-v1'', cd_hmac cd key data))"

definition key_for_scheme :: "string \<Rightarrow> log_event \<Rightarrow> audit_error + string" where
  "key_for_scheme key e =
     (if le_scheme e = '''' \<or> le_scheme e = ''sha256'' then Inr []
      else if le_scheme e = ''hmac-sha256-v1'' then (if key = [] then Inl (KeyNotInstalled (le_sequence e)) else Inr key)
      else Inl (UnknownScheme (le_sequence e) (le_scheme e)))"

section \<open>Appending\<close>

definition clear_cache :: "audit_log \<Rightarrow> audit_log" where
  "clear_cache lg = lg\<lparr>al_last := None, al_state := zero_file_state, al_valid := False\<rparr>"

definition cache_event :: "log_event \<Rightarrow> file_state \<Rightarrow> audit_log \<Rightarrow> audit_log" where
  "cache_event e st lg = lg\<lparr>al_last := Some e, al_state := st, al_valid := True\<rparr>"

definition read_last ::
    "codec \<Rightarrow> audit_io \<Rightarrow> string option \<Rightarrow> audit_log \<Rightarrow> (audit_error + log_event option \<times> int) \<times> audit_log" where
  "read_last cd io file lg =
     (case file of
        None \<Rightarrow> (Inr (None, 0), clear_cache lg)
      | Some bs \<Rightarrow> (case ai_stat io of
          None \<Rightarrow> (Inl StatFailed, lg)
        | Some raw \<Rightarrow>
            let st = sized bs raw;
                scan = (if \<not> ai_open io then (Inl OpenFailed, lg)
                  else (case read_events cd bs of
                      Inl e \<Rightarrow> (Inl e, lg)
                    | Inr es \<Rightarrow>
                        if es = [] then (Inr (None, 0), clear_cache lg)
                        else if \<not> fs_cacheable st then (Inr (Some (last es), int (length es)), clear_cache lg)
                        else (Inr (Some (last es), int (length es)), cache_event (last es) st lg)))
            in if fs_cacheable st \<and> al_valid lg \<and> al_state lg = st
               then (case al_last lg of Some e \<Rightarrow> (Inr (Some e, le_sequence e), lg) | None \<Rightarrow> scan)
               else scan))"

definition next_event :: "codec \<Rightarrow> string \<Rightarrow> time \<Rightarrow> string \<times> string \<times> string \<Rightarrow> log_event option \<Rightarrow> int \<Rightarrow> log_event" where
  "next_event cd key now args last_event n =
     (case args of (ty, actor, details) \<Rightarrow>
       (let e = \<lparr>le_sequence = n + 1, le_timestamp = now, le_type = ty, le_actor = actor, le_details = details,
                 le_prev_hash = (case last_event of Some p \<Rightarrow> le_hash p | None \<Rightarrow> []), le_hash = [], le_scheme = []\<rparr>;
            (scheme, h) = hash_event cd e key
        in e\<lparr>le_scheme := scheme, le_hash := h\<rparr>))"

definition append_event ::
    "codec \<Rightarrow> audit_io \<Rightarrow> string \<times> string \<times> string \<Rightarrow> audit_log \<Rightarrow> string option
      \<Rightarrow> (audit_error + log_event) \<times> audit_log \<times> string option" where
  "append_event cd io args lg file =
     (if \<not> ai_mkdir io then (Inl CreateDirFailed, lg, file)
      else if \<not> ai_lock io then (Inl LockFailed, lg, file)
      else (case read_last cd io file lg of
          (Inl e, lg1) \<Rightarrow> (Inl e, lg1, file)
        | (Inr (prev, n), lg1) \<Rightarrow>
            let e = next_event cd (al_key lg1) (ai_now io) args prev n in
            if \<not> ai_append io then (Inl OpenFailed, lg1, file)
            else let bs = (case file of None \<Rightarrow> [] | Some b \<Rightarrow> b) in
              (case cd_line cd e of
                 None \<Rightarrow> (Inl EncodeFailed, lg1, Some bs)
               | Some l \<Rightarrow> (case ai_short_write io of
                   Some k \<Rightarrow> (Inl WriteFailed, lg1, Some (bs @ take k (l @ [newline])))
                 | None \<Rightarrow>
                     let bs' = bs @ l @ [newline] in
                     (Inr e,
                      (case ai_stat_after io of
                         Some raw \<Rightarrow> if fs_cacheable (sized bs' raw) then cache_event e (sized bs' raw) lg1
                                     else clear_cache lg1
                       | None \<Rightarrow> clear_cache lg1),
                      Some bs')))))"

definition checkpoint ::
    "codec \<Rightarrow> audit_io \<Rightarrow> string option \<Rightarrow> audit_log \<Rightarrow> (audit_error + int \<times> string) \<times> audit_log" where
  "checkpoint cd io file lg =
     (case read_last cd io file lg of
        (Inl e, lg1) \<Rightarrow> (Inl e, lg1)
      | (Inr (None, _), lg1) \<Rightarrow> (Inr (0, []), lg1)
      | (Inr (Some e, n), lg1) \<Rightarrow> (Inr (n, le_hash e), lg1))"

section \<open>Verification\<close>

record verify_report =
  vr_ok :: bool
  vr_total_entries :: int
  vr_first_corruption_at :: "int option"
  vr_err :: "audit_error option"
  vr_unauthenticated :: int
  vr_first_unauthenticated_at :: "int option"

text \<open>The local variables of the loop.\<close>

record verify_state =
  vs_previous :: string
  vs_sequence :: int
  vs_seen_keyed :: bool
  vs_unauthenticated :: int
  vs_first_unauth :: "int option"

definition corrupt :: "int \<Rightarrow> int \<Rightarrow> audit_error \<Rightarrow> verify_report" where
  "corrupt seen first e = \<lparr>vr_ok = False, vr_total_entries = seen, vr_first_corruption_at = Some first,
     vr_err = Some e, vr_unauthenticated = 0, vr_first_unauthenticated_at = None\<rparr>"

definition verify_line :: "codec \<Rightarrow> string \<Rightarrow> verify_state \<Rightarrow> string \<Rightarrow> verify_report + verify_state" where
  "verify_line cd key vs line =
     (case cd_read cd line of
        None \<Rightarrow> Inl (corrupt (vs_sequence vs) (vs_sequence vs + 1) DecodeFailed)
      | Some e \<Rightarrow>
          let n = vs_sequence vs + 1 in
          if le_sequence e \<noteq> n then Inl (corrupt n n (SequenceMismatch (le_sequence e)))
          else if le_prev_hash e \<noteq> vs_previous vs then Inl (corrupt n (le_sequence e) (ChainMismatch (le_sequence e)))
          else (case key_for_scheme key e of
              Inl err \<Rightarrow> Inl (corrupt n (le_sequence e) err)
            | Inr k \<Rightarrow>
                if le_hash e \<noteq> snd (hash_event cd e k) then Inl (corrupt n (le_sequence e) (HashMismatch (le_sequence e)))
                else Inr (let vs1 = vs\<lparr>vs_sequence := n, vs_previous := le_hash e\<rparr> in
                  if le_scheme e = ''hmac-sha256-v1'' then vs1\<lparr>vs_seen_keyed := True\<rparr>
                  else if vs_seen_keyed vs1 then
                    vs1\<lparr>vs_unauthenticated := vs_unauthenticated vs1 + 1,
                        vs_first_unauth := (case vs_first_unauth vs1 of None \<Rightarrow> Some (le_sequence e) | Some i \<Rightarrow> Some i)\<rparr>
                  else vs1)))"

fun verify_lines :: "codec \<Rightarrow> string \<Rightarrow> verify_state \<Rightarrow> string list \<Rightarrow> verify_report + verify_state" where
  "verify_lines cd key vs [] = Inr vs"
| "verify_lines cd key vs (l # ls) =
     (case verify_line cd key vs l of Inl r \<Rightarrow> Inl r | Inr vs1 \<Rightarrow> verify_lines cd key vs1 ls)"

definition start_verify :: verify_state where
  "start_verify = \<lparr>vs_previous = [], vs_sequence = 0, vs_seen_keyed = False, vs_unauthenticated = 0, vs_first_unauth = None\<rparr>"

definition verified :: "int \<Rightarrow> int \<Rightarrow> int option \<Rightarrow> verify_report" where
  "verified seen n first = \<lparr>vr_ok = True, vr_total_entries = seen, vr_first_corruption_at = None, vr_err = None,
     vr_unauthenticated = n, vr_first_unauthenticated_at = first\<rparr>"

definition verify_detailed :: "codec \<Rightarrow> audit_io \<Rightarrow> string \<Rightarrow> string option \<Rightarrow> audit_error + verify_report" where
  "verify_detailed cd io key file =
     (case file of
        None \<Rightarrow> Inr (verified 0 0 None)
      | Some bs \<Rightarrow>
          if \<not> ai_open io then Inl OpenFailed
          else (case scan_lines max_audit_line_bytes bs of
              (ls, fits) \<Rightarrow> (case verify_lines cd key start_verify ls of
                  Inl r \<Rightarrow> Inr r
                | Inr vs \<Rightarrow>
                    if fits then Inr (verified (vs_sequence vs) (vs_unauthenticated vs) (vs_first_unauth vs))
                    else Inl TokenTooLong)))"

definition verify :: "codec \<Rightarrow> audit_io \<Rightarrow> string \<Rightarrow> string option \<Rightarrow> audit_error option" where
  "verify cd io key file =
     (case verify_detailed cd io key file of
        Inl e \<Rightarrow> Some e
      | Inr r \<Rightarrow> if vr_ok r then None else vr_err r)"

section \<open>Degradation flags\<close>

record audit_state =
  as_append_degraded_at :: "time option"
  as_verify_degraded_at :: "time option"
  as_last_verified_at :: "time option"

definition record_append_result :: "time \<Rightarrow> bool \<Rightarrow> audit_state \<Rightarrow> audit_state" where
  "record_append_result now failed s =
     (if \<not> failed then s\<lparr>as_append_degraded_at := None\<rparr>
      else if as_append_degraded_at s \<noteq> None then s
      else s\<lparr>as_append_degraded_at := Some now\<rparr>)"

definition mark_degraded_at :: "time \<Rightarrow> audit_state \<Rightarrow> audit_state" where
  "mark_degraded_at t s = s\<lparr>as_append_degraded_at := Some t\<rparr>"

definition mark_verify_failed_at :: "time \<Rightarrow> audit_state \<Rightarrow> audit_state" where
  "mark_verify_failed_at t s = s\<lparr>as_verify_degraded_at := Some t\<rparr>"

definition mark_verified_at :: "time \<Rightarrow> audit_state \<Rightarrow> audit_state" where
  "mark_verified_at t s = s\<lparr>as_last_verified_at := Some t, as_verify_degraded_at := None\<rparr>"

definition earliest_time :: "time option \<Rightarrow> time option \<Rightarrow> time option" where
  "earliest_time a b =
     (case a of
        None \<Rightarrow> b
      | Some x \<Rightarrow> (case b of None \<Rightarrow> a | Some y \<Rightarrow> if x < y then a else b))"

definition state_snapshot :: "audit_state \<Rightarrow> bool \<times> time option" where
  "state_snapshot s =
     (case earliest_time (as_append_degraded_at s) (as_verify_degraded_at s) of
        None \<Rightarrow> (False, None) | Some t \<Rightarrow> (True, Some t))"

section \<open>The chain a log should be\<close>

text \<open>An event is authentic when its hash is the one its declared scheme gives; in a good log the
  sequence numbers count from one, every event carries the hash of its predecessor, and all are
  authentic.\<close>

definition authentic :: "codec \<Rightarrow> string \<Rightarrow> log_event \<Rightarrow> bool" where
  "authentic cd key e =
     (case key_for_scheme key e of Inl _ \<Rightarrow> False | Inr k \<Rightarrow> le_hash e = snd (hash_event cd e k))"

definition chain_ok :: "codec \<Rightarrow> string \<Rightarrow> log_event list \<Rightarrow> bool" where
  "chain_ok cd key es =
     (map le_sequence es = map int [1..<Suc (length es)] \<and>
      map le_prev_hash es = butlast ([] # map le_hash es) \<and> list_all (authentic cd key) es)"

definition keyed :: "log_event \<Rightarrow> bool" where
  "keyed e = (le_scheme e = ''hmac-sha256-v1'')"

text \<open>The entries without a key after the first one with a key.\<close>

definition unkeyed_tail :: "log_event list \<Rightarrow> log_event list" where
  "unkeyed_tail es = filter (\<lambda>e. \<not> keyed e) (dropWhile (\<lambda>e. \<not> keyed e) es)"

fun linked :: "codec \<Rightarrow> string \<Rightarrow> string \<Rightarrow> int \<Rightarrow> log_event list \<Rightarrow> bool" where
  "linked cd key prev n [] = True"
| "linked cd key prev n (e # es) =
     (le_sequence e = n + 1 \<and> le_prev_hash e = prev \<and> authentic cd key e \<and> linked cd key (le_hash e) (n + 1) es)"

lemma linked_iff:
  "linked cd key prev (int n) es =
     (map le_sequence es = map int [Suc n..<Suc (n + length es)] \<and>
      map le_prev_hash es = butlast (prev # map le_hash es) \<and> list_all (authentic cd key) es)"
proof (induction es arbitrary: prev n)
  case (Cons e es)
  have "[Suc n..<Suc (n + length (e # es))] = Suc n # [Suc (Suc n)..<Suc (Suc n + length es)]"
    by (subst upt_conv_Cons) auto
  moreover have "butlast (prev # map le_hash (e # es)) = prev # butlast (le_hash e # map le_hash es)"
    by simp
  moreover have "linked cd key prev (int n) (e # es) \<longleftrightarrow> le_sequence e = int (Suc n) \<and> le_prev_hash e = prev
      \<and> authentic cd key e \<and> linked cd key (le_hash e) (int (Suc n)) es"
    by (auto simp: algebra_simps)
  ultimately show ?case
    unfolding Cons.IH [of "le_hash e" "Suc n"] by (simp del: upt_Suc butlast.simps of_nat_Suc) blast
qed simp

lemma chain_ok_linked: "chain_ok cd key es = linked cd key [] 0 es"
  using linked_iff [of cd key "[]" 0 es] by (simp add: chain_ok_def)

lemma linked_append:
  "linked cd key prev n (es @ fs) =
     (linked cd key prev n es \<and> linked cd key (last (prev # map le_hash es)) (n + int (length es)) fs)"
  by (induction es arbitrary: prev n) (auto simp: algebra_simps)

lemma linked_snoc:
  "linked cd key prev n (es @ [e]) =
     (linked cd key prev n es \<and> le_sequence e = n + int (length es) + 1
      \<and> le_prev_hash e = last (prev # map le_hash es) \<and> authentic cd key e)"
  by (simp add: linked_append)

lemma linked_take: "linked cd key prev n es \<Longrightarrow> linked cd key prev n (take k es)"
  by (metis append_take_drop_id linked_append)

lemma linked_sequence: "linked cd key prev n es \<Longrightarrow> i < length es \<Longrightarrow> le_sequence (es ! i) = n + int i + 1"
  by (induction es arbitrary: prev n i) (auto simp: nth_Cons split: nat.split)

section \<open>What the verifier computes\<close>

text \<open>The state after a good entry.\<close>

definition pass :: "log_event \<Rightarrow> verify_state \<Rightarrow> verify_state" where
  "pass e vs = (let vs1 = vs\<lparr>vs_sequence := vs_sequence vs + 1, vs_previous := le_hash e\<rparr> in
     if keyed e then vs1\<lparr>vs_seen_keyed := True\<rparr>
     else if vs_seen_keyed vs1 then
       vs1\<lparr>vs_unauthenticated := vs_unauthenticated vs1 + 1,
           vs_first_unauth := (case vs_first_unauth vs1 of None \<Rightarrow> Some (le_sequence e) | Some i \<Rightarrow> Some i)\<rparr>
     else vs1)"

lemma verify_line_good:
  "cd_read cd l = Some e \<Longrightarrow> linked cd key (vs_previous vs) (vs_sequence vs) [e] \<Longrightarrow> verify_line cd key vs l = Inr (pass e vs)"
  by (auto simp: verify_line_def Let_def authentic_def pass_def keyed_def split: sum.splits)

lemma verify_line_InrD:
  "verify_line cd key vs l = Inr vs' \<Longrightarrow>
     \<exists>e. cd_read cd l = Some e \<and> linked cd key (vs_previous vs) (vs_sequence vs) [e] \<and> vs' = pass e vs"
proof (cases "cd_read cd l")
  case (Some e)
  assume run: "verify_line cd key vs l = Inr vs'"
  with Some have "linked cd key (vs_previous vs) (vs_sequence vs) [e]"
    by (auto simp: verify_line_def Let_def authentic_def split: if_splits sum.splits)
  with Some run verify_line_good [OF Some this] show ?thesis by simp
qed (simp add: verify_line_def)

lemma verify_line_InlD:
  "verify_line cd key vs l = Inl r \<Longrightarrow>
     \<not> vr_ok r \<and> vr_err r \<noteq> None \<and> vr_first_corruption_at r = Some (vs_sequence vs + 1) \<and>
     (case cd_read cd l of None \<Rightarrow> True | Some e \<Rightarrow> \<not> linked cd key (vs_previous vs) (vs_sequence vs) [e])"
  by (auto simp: verify_line_def Let_def authentic_def corrupt_def split: option.splits if_splits sum.splits)

lemma pass_simps [simp]:
  "vs_sequence (pass e vs) = vs_sequence vs + 1" "vs_previous (pass e vs) = le_hash e"
  by (simp_all add: pass_def Let_def)

lemma verify_lines_InrD:
  "verify_lines cd key vs ls = Inr vs' \<Longrightarrow>
     \<exists>es. decode_lines cd ls = Inr es \<and> linked cd key (vs_previous vs) (vs_sequence vs) es \<and> vs' = fold pass es vs"
proof (induction ls arbitrary: vs)
  case (Cons l ls)
  then obtain vs1 where vs1: "verify_line cd key vs l = Inr vs1" "verify_lines cd key vs1 ls = Inr vs'"
    by (auto split: sum.splits)
  from verify_line_InrD [OF this(1)] obtain e where "cd_read cd l = Some e"
    "linked cd key (vs_previous vs) (vs_sequence vs) [e]" "vs1 = pass e vs" by blast
  with Cons.IH [OF vs1(2)] show ?case by auto
qed simp

lemma verify_lines_good:
  "decode_lines cd ls = Inr es \<Longrightarrow> linked cd key (vs_previous vs) (vs_sequence vs) es \<Longrightarrow>
     verify_lines cd key vs ls = Inr (fold pass es vs)"
proof (induction ls arbitrary: vs es)
  case (Cons l ls)
  then obtain e fs where e: "cd_read cd l = Some e" "es = e # fs" "decode_lines cd ls = Inr fs"
    by (cases "decode_lines cd ls") (auto split: option.splits)
  with Cons.IH [of fs "pass e vs"] Cons.prems verify_line_good [OF e(1), of key vs] show ?case by simp
qed simp

lemma verify_lines_InlD:
  "verify_lines cd key vs ls = Inl r \<Longrightarrow>
     \<exists>k es. k < length ls \<and> decode_lines cd (take k ls) = Inr es \<and> linked cd key (vs_previous vs) (vs_sequence vs) es
       \<and> \<not> vr_ok r \<and> vr_err r \<noteq> None \<and> vr_first_corruption_at r = Some (vs_sequence vs + int k + 1)
       \<and> (case decode_lines cd (take (Suc k) ls) of Inl _ \<Rightarrow> True
          | Inr es' \<Rightarrow> \<not> linked cd key (vs_previous vs) (vs_sequence vs) es')"
proof (induction ls arbitrary: vs)
  case (Cons l ls)
  show ?case
  proof (cases "verify_line cd key vs l")
    case (Inl r')
    then have "r = r'" using Cons.prems by simp
    with verify_line_InlD [OF Inl] show ?thesis
      by (intro exI [of _ 0]) (auto split: option.splits)
  next
    case (Inr vs1)
    from verify_line_InrD [OF this] obtain e where e: "cd_read cd l = Some e"
      "linked cd key (vs_previous vs) (vs_sequence vs) [e]" "vs1 = pass e vs" by blast
    from Cons.IH [of vs1, unfolded e(3) pass_simps] Cons.prems Inr obtain k es where k: "k < length ls" "decode_lines cd (take k ls) = Inr es"
      "linked cd key (le_hash e) (vs_sequence vs + 1) es" "\<not> vr_ok r" "vr_err r \<noteq> None"
      "vr_first_corruption_at r = Some (vs_sequence vs + 1 + int k + 1)"
      "case decode_lines cd (take (Suc k) ls) of Inl _ \<Rightarrow> True | Inr es' \<Rightarrow> \<not> linked cd key (le_hash e) (vs_sequence vs + 1) es'"
      by (auto simp: e(3))
    then show ?thesis
      using e by (intro exI [of _ "Suc k"] exI [of _ "e # es"]) (auto split: sum.splits)
  qed
qed simp


lemma start_verify_simps: "vs_previous start_verify = []" "vs_sequence start_verify = 0"
  by (simp_all add: start_verify_def)

lemma fold_pass_sequence: "vs_sequence (fold pass es vs) = vs_sequence vs + int (length es)"
  by (induction es arbitrary: vs) auto

text \<open>The entries the loop reports, from a state that has or has not seen a keyed entry.\<close>

definition reported :: "bool \<Rightarrow> log_event list \<Rightarrow> log_event list" where
  "reported seen es = (if seen then filter (\<lambda>e. \<not> keyed e) es else unkeyed_tail es)"

lemma reported_simps [simp]:
  "reported seen [] = []"
  "reported seen (e # es) = (if keyed e then reported True es else if seen then e # reported True es else reported False es)"
  by (simp_all add: reported_def unkeyed_tail_def)

lemma fold_pass_reported:
  "vs_unauthenticated (fold pass es vs) = vs_unauthenticated vs + int (length (reported (vs_seen_keyed vs) es)) \<and>
   vs_first_unauth (fold pass es vs) =
     (case vs_first_unauth vs of Some i \<Rightarrow> Some i | None \<Rightarrow> map_option le_sequence (find (\<lambda>_. True) (reported (vs_seen_keyed vs) es)))"
  by (induction es arbitrary: vs) (auto simp: pass_def Let_def split: option.splits)

definition audit_report :: "log_event list \<Rightarrow> verify_report" where
  "audit_report es = verified (int (length es)) (int (length (unkeyed_tail es)))
     (map_option le_sequence (find (\<lambda>_. True) (unkeyed_tail es)))"

lemma verify_detailed_good:
  assumes "ai_open io" and "read_events cd bs = Inr es" and "chain_ok cd key es"
  shows "verify_detailed cd io key (Some bs) = Inr (audit_report es)"
proof -
  obtain ls where ls: "scan_lines max_audit_line_bytes bs = (ls, True)" "decode_lines cd ls = Inr es"
    using assms(2) by (auto simp: read_events_def split: prod.splits sum.splits if_splits)
  have "linked cd key (vs_previous start_verify) (vs_sequence start_verify) es"
    using assms(3) by (simp add: chain_ok_linked start_verify_def)
  from verify_lines_good [OF ls(2) this] ls(1) assms(1) show ?thesis
    using fold_pass_reported [of es start_verify]
    by (simp add: verify_detailed_def audit_report_def fold_pass_sequence start_verify_def reported_def)
qed

lemma verify_detailed_ok:
  assumes "verify_detailed cd io key (Some bs) = Inr r" and "vr_ok r"
  shows "\<exists>es. read_events cd bs = Inr es \<and> chain_ok cd key es \<and> r = audit_report es"
proof -
  obtain ls fits where scan: "scan_lines max_audit_line_bytes bs = (ls, fits)" by force
  have "verify_lines cd key start_verify ls \<noteq> Inl r'" for r'
    using verify_lines_InlD assms scan by (fastforce simp: verify_detailed_def split: if_splits)
  then obtain vs where vs: "verify_lines cd key start_verify ls = Inr vs"
    by (cases "verify_lines cd key start_verify ls") auto
  from verify_lines_InrD [OF this] obtain es where es: "decode_lines cd ls = Inr es"
    "linked cd key (vs_previous start_verify) (vs_sequence start_verify) es" by blast
  with assms scan vs have "read_events cd bs = Inr es" "ai_open io"
    by (auto simp: verify_detailed_def read_events_def split: if_splits)
  moreover have "chain_ok cd key es" using es(2) by (simp add: chain_ok_linked start_verify_def)
  ultimately show ?thesis using verify_detailed_good [of io cd bs es key] assms(1) by simp
qed

text \<open>C20: The detailed verification is exact. A log is reported sound just when it can be read and its
  events form a chain, with the number of entries and of unkeyed entries after the first keyed one; a
  reported corruption is at the first entry where the lines read so far stop being a chain.\<close>

theorem verify_detailed_exact:
  "case verify_detailed cd io key (Some bs) of
     Inl e \<Rightarrow> e = (if ai_open io then TokenTooLong else OpenFailed)
   | Inr r \<Rightarrow> ai_open io \<and>
       (if vr_ok r then (case read_events cd bs of Inl _ \<Rightarrow> False
          | Inr es \<Rightarrow> chain_ok cd key es \<and> r = audit_report es)
        else (\<exists>k es. vr_first_corruption_at r = Some (int k + 1) \<and>
          (let ls = fst (scan_lines max_audit_line_bytes bs) in
            k < length ls \<and> decode_lines cd (take k ls) = Inr es \<and> chain_ok cd key es \<and>
            (case decode_lines cd (take (Suc k) ls) of Inl _ \<Rightarrow> True | Inr es' \<Rightarrow> \<not> chain_ok cd key es'))))"
proof (cases "verify_detailed cd io key (Some bs)")
  case (Inl e)
  then show ?thesis by (auto simp: verify_detailed_def split: if_splits prod.splits sum.splits)
next
  case (Inr r)
  then have "ai_open io" by (auto simp: verify_detailed_def split: if_splits)
  show ?thesis
  proof (cases "vr_ok r")
    case True
    with verify_detailed_ok [OF Inr True] Inr \<open>ai_open io\<close> show ?thesis by auto
  next
    case False
    obtain ls fits where scan: "scan_lines max_audit_line_bytes bs = (ls, fits)" by force
    with Inr False have "verify_lines cd key start_verify ls = Inl r"
      by (auto simp: verify_detailed_def verified_def split: if_splits sum.splits)
    from verify_lines_InlD [OF this, unfolded start_verify_simps chain_ok_linked [symmetric]]
    obtain k es where "k < length ls" "decode_lines cd (take k ls) = Inr es"
      "chain_ok cd key es" "vr_first_corruption_at r = Some (int k + 1)"
      "case decode_lines cd (take (Suc k) ls) of Inl _ \<Rightarrow> True | Inr es' \<Rightarrow> \<not> chain_ok cd key es'"
      by auto
    with Inr False scan \<open>ai_open io\<close> show ?thesis by auto
  qed
qed

section \<open>Many writers on one log\<close>

text \<open>The laws of the JSON library and of the hash functions.\<close>

definition json_ok :: "codec \<Rightarrow> bool" where
  "json_ok cd \<longleftrightarrow> (\<forall>e l. cd_line cd e = Some l \<longrightarrow>
     cd_read cd l = Some e \<and> newline \<notin> set l \<and> l \<noteq> [] \<and> last l \<noteq> CHR 0x0D)"

definition collision_free :: "codec \<Rightarrow> string \<Rightarrow> bool" where
  "collision_free cd key \<longleftrightarrow> (\<forall>k\<in>{[], key}. \<forall>k'\<in>{[], key}. \<forall>e e'.
     snd (hash_event cd e k) = snd (hash_event cd e' k') \<longrightarrow> signed_part e = signed_part e')"

fun run_appends ::
    "codec \<Rightarrow> (nat \<times> (string \<times> string \<times> string) \<times> audit_io) list \<Rightarrow> (nat \<Rightarrow> audit_log) \<Rightarrow> string option
      \<Rightarrow> log_event list \<times> string option" where
  "run_appends cd [] logs file = ([], file)"
| "run_appends cd ((w, args, io) # steps) logs file =
     (case append_event cd io args (logs w) file of
        (r, lg, file') \<Rightarrow> (case run_appends cd steps (logs(w := lg)) file' of
           (es, file'') \<Rightarrow> ((case r of Inl _ \<Rightarrow> es | Inr e \<Rightarrow> e # es), file'')))"

definition unlines :: "string list \<Rightarrow> string" where
  "unlines ls = concat (map (\<lambda>l. l @ [newline]) ls)"

definition clean_line :: "string \<Rightarrow> bool" where
  "clean_line l \<longleftrightarrow> newline \<notin> set l \<and> l \<noteq> [] \<and> last l \<noteq> CHR 0x0D"

lemma scan_unlines:
  "list_all clean_line ls \<Longrightarrow>
     scan_lines limit (unlines ls) = (takeWhile (\<lambda>l. length l < limit) ls, list_all (\<lambda>l. length l < limit) ls)"
proof (induction ls)
  case (Cons l ls)
  then have l: "takeWhile (\<lambda>c. c \<noteq> newline) (l @ newline # unlines ls) = l" "drop_cr l = l"
    by (auto simp: clean_line_def drop_cr_def) (subst takeWhile_append2, auto)
  show ?case
    using Cons by (subst scan_lines.simps) (auto simp: unlines_def l [unfolded unlines_def] Let_def)
qed (simp add: unlines_def scan_lines.simps)

text \<open>A writer's cache holds an event of the log and the size the file had when it was the last.\<close>

definition coherent :: "codec \<Rightarrow> log_event list \<Rightarrow> audit_log \<Rightarrow> bool" where
  "coherent cd es lg \<longleftrightarrow> (al_valid lg \<longrightarrow> (\<exists>k<length es. al_last lg = Some (es ! k)
     \<and> fs_size (al_state lg) = length (unlines (map (the \<circ> cd_line cd) (take (Suc k) es)))))"

definition log_file :: "codec \<Rightarrow> log_event list \<Rightarrow> string option \<Rightarrow> bool" where
  "log_file cd es file \<longleftrightarrow> list_all (\<lambda>e. cd_line cd e \<noteq> None) es \<and>
     (case file of None \<Rightarrow> es = [] | Some bs \<Rightarrow> bs = unlines (map (the \<circ> cd_line cd) es))"


abbreviation lines_of :: "codec \<Rightarrow> log_event list \<Rightarrow> string list" where
  "lines_of cd es \<equiv> map (the \<circ> cd_line cd) es"

lemma unlines_append [simp]: "unlines (ls @ ms) = unlines ls @ unlines ms"
  by (simp add: unlines_def)

lemma unlines_Nil [simp]: "unlines [] = []"
  by (simp add: unlines_def)

lemma unlines_Nil_iff [simp]: "unlines ls = [] \<longleftrightarrow> ls = []"
  by (auto simp: unlines_def)

lemma shorter_log:
  assumes "k < length es"
  shows "length (unlines (lines_of cd (take k es))) < length (unlines (lines_of cd es))"
proof -
  have "unlines (lines_of cd es) = unlines (lines_of cd (take k es)) @ unlines (lines_of cd (drop k es))"
    by (metis append_take_drop_id map_append unlines_append)
  moreover have "unlines (lines_of cd (drop k es)) \<noteq> []" using assms by simp
  ultimately show ?thesis by (simp del: unlines_Nil_iff)
qed

lemma decode_lines_of:
  "json_ok cd \<Longrightarrow> list_all (\<lambda>e. cd_line cd e \<noteq> None) es \<Longrightarrow> decode_lines cd (lines_of cd es) = Inr es"
  by (induction es) (auto simp: json_ok_def)

lemma clean_lines_of:
  "json_ok cd \<Longrightarrow> list_all (\<lambda>e. cd_line cd e \<noteq> None) es \<Longrightarrow> list_all clean_line (lines_of cd es)"
  by (induction es) (auto simp: json_ok_def clean_line_def)

lemma read_log_file:
  assumes "json_ok cd" and "log_file cd es (Some bs)"
  shows "read_events cd bs = (if list_all (\<lambda>l. length l < max_audit_line_bytes) (lines_of cd es) then Inr es else Inl TokenTooLong)"
proof -
  have es: "list_all (\<lambda>e. cd_line cd e \<noteq> None) es" "bs = unlines (lines_of cd es)"
    using assms(2) by (simp_all add: log_file_def)
  define fs where "fs = takeWhile (\<lambda>e. length (the (cd_line cd e)) < max_audit_line_bytes) es"
  have "list_all (\<lambda>e. cd_line cd e \<noteq> None) fs"
    using es(1) by (auto simp: fs_def list_all_iff dest: set_takeWhileD)
  then have "decode_lines cd (takeWhile (\<lambda>l. length l < max_audit_line_bytes) (lines_of cd es)) = Inr fs"
    using decode_lines_of [OF assms(1)] by (simp add: takeWhile_map fs_def comp_def)
  moreover have "fs = es" if "list_all (\<lambda>l. length l < max_audit_line_bytes) (lines_of cd es)"
    using that by (simp add: fs_def list_all_iff takeWhile_eq_all_conv)
  ultimately show ?thesis
    using scan_unlines [OF clean_lines_of [OF assms(1) es(1)], of max_audit_line_bytes]
    by (simp add: read_events_def es(2))
qed

lemma read_last_key [simp]: "al_key (snd (read_last cd io file lg)) = al_key lg"
  by (auto simp: read_last_def clear_cache_def cache_event_def Let_def split: option.split sum.split)

lemma coherent_clear [simp]: "coherent cd es (clear_cache lg)"
  by (simp add: coherent_def clear_cache_def)

lemma coherent_cache:
  "es \<noteq> [] \<Longrightarrow> fs_size st = length (unlines (lines_of cd es)) \<Longrightarrow> coherent cd es (cache_event (last es) st lg)"
  unfolding coherent_def cache_event_def
  by (intro impI exI [of _ "length es - 1"]) (simp add: last_conv_nth)

lemma read_last_log:
  assumes "json_ok cd" and lf: "log_file cd es file" and "coherent cd es lg" and "linked cd key [] 0 es"
    and run: "read_last cd io file lg = (r, lg')"
  shows "coherent cd es lg' \<and>
    (case r of Inl _ \<Rightarrow> True | Inr (prev, n) \<Rightarrow> n = int (length es) \<and> prev = (if es = [] then None else Some (last es)))"
proof (cases "file")
  case None
  then show ?thesis using lf run by (auto simp: read_last_def log_file_def)
next
  case (Some bs)
  have bs: "bs = unlines (lines_of cd es)" using lf Some by (simp add: log_file_def)
  have read: "read_events cd bs = Inr es' \<Longrightarrow> es' = es" for es'
    using read_log_file [OF assms(1) lf [unfolded Some]] by (simp split: if_splits)
  have hit: "es \<noteq> [] \<and> e = last es \<and> le_sequence e = int (length es)"
    if "al_valid lg" "fs_size (al_state lg) = length bs" "al_last lg = Some e" for e
  proof -
    from assms(3) that obtain k where k: "k < length es" "e = es ! k"
      "length bs = length (unlines (lines_of cd (take (Suc k) es)))"
      by (auto simp: coherent_def)
    then have "length es = Suc k" using shorter_log [of "Suc k" es cd] bs by (cases "Suc k < length es") auto
    moreover from this have "es \<noteq> []" by auto
    ultimately show ?thesis using k linked_sequence [OF assms(4) k(1)] last_conv_nth [of es] by auto
  qed
  show ?thesis
    using run assms(3) Some read hit coherent_cache [of es]
    by (auto simp: read_last_def sized_def bs Let_def split: option.splits if_splits sum.splits)
qed

lemma authentic_next:
  "e = next_event cd k now args prev n \<Longrightarrow> k \<in> {[], key} \<Longrightarrow> authentic cd key e"
  by (auto simp: next_event_def authentic_def key_for_scheme_def hash_event_def signed_part_def Let_def split: prod.splits)

lemma append_event_log:
  assumes "json_ok cd" and lf: "log_file cd es file" and "coherent cd es lg" and chain: "linked cd key [] 0 es"
    and keys: "al_key lg \<in> {[], key}" and "ai_short_write io = None"
    and run: "append_event cd io args lg file = (r, lg', file')"
  shows "al_key lg' = al_key lg \<and> (case r of
     Inl _ \<Rightarrow> log_file cd es file' \<and> coherent cd es lg'
   | Inr e \<Rightarrow> log_file cd (es @ [e]) file' \<and> coherent cd (es @ [e]) lg' \<and> linked cd key [] 0 (es @ [e]))"
proof (cases "ai_mkdir io \<and> ai_lock io")
  case False
  then show ?thesis using run lf assms(3) by (auto simp: append_event_def split: if_splits)
next
  case True
  obtain q lg1 where q: "read_last cd io file lg = (q, lg1)" by force
  note rd = read_last_log [OF assms(1) lf assms(3) chain q]
  have key: "al_key lg1 = al_key lg" using read_last_key [of cd io "file" lg] q by simp
  show ?thesis
  proof (cases q)
    case (Inl x)
    then show ?thesis using run True q rd key lf by (auto simp: append_event_def)
  next
    case (Inr pn)
    obtain prev n where pn: "q = Inr (prev, n)" using Inr by (cases pn) auto
    let ?e = "next_event cd (al_key lg1) (ai_now io) args prev n"
    have link: "linked cd key [] 0 (es @ [?e])"
      using chain rd pn authentic_next [OF refl, of "al_key lg1" key] keys key
      by (auto simp: linked_snoc next_event_def Let_def last_map split: prod.splits)
    have grow: "cd_line cd ?e = Some l \<Longrightarrow> log_file cd (es @ [?e]) (Some ((case file of None \<Rightarrow> [] | Some b \<Rightarrow> b) @ l @ [newline]))" for l
      using lf by (auto simp: log_file_def unlines_def split: option.splits)
    have empty: "log_file cd es (Some (case file of None \<Rightarrow> [] | Some b \<Rightarrow> b))"
      using lf by (auto simp: log_file_def split: option.splits)
    have cache: "cd_line cd ?e = Some l \<Longrightarrow>
        coherent cd (es @ [?e]) (cache_event ?e (sized ((case file of None \<Rightarrow> [] | Some b \<Rightarrow> b) @ l @ [newline]) raw) lg1)" for l raw
      using coherent_cache [of "es @ [?e]" _ cd lg1] grow [of l] by (simp add: log_file_def sized_def)
    show ?thesis
      using run True q pn rd key link grow empty cache assms(6) lf
      by (auto simp: append_event_def Let_def split: if_splits option.splits) (auto simp: cache_event_def clear_cache_def)
  qed
qed

lemma coherent_mono: "coherent cd es lg \<Longrightarrow> coherent cd (es @ [e]) lg"
  unfolding coherent_def
proof (intro impI)
  assume "al_valid lg"
  assume "al_valid lg \<longrightarrow> (\<exists>k<length es. al_last lg = Some (es ! k)
     \<and> fs_size (al_state lg) = length (unlines (lines_of cd (take (Suc k) es))))"
  with \<open>al_valid lg\<close> obtain k where "k < length es" "al_last lg = Some (es ! k)"
    "fs_size (al_state lg) = length (unlines (lines_of cd (take (Suc k) es)))" by blast
  then show "\<exists>k<length (es @ [e]). al_last lg = Some ((es @ [e]) ! k)
     \<and> fs_size (al_state lg) = length (unlines (lines_of cd (take (Suc k) (es @ [e]))))"
    by (intro exI [of _ k]) (simp add: nth_append)
qed


lemma verify_too_long:
  assumes "ai_open io" and "scan_lines max_audit_line_bytes bs = (ls, False)" and "decode_lines cd ls = Inr fs" and "linked cd key [] 0 fs"
  shows "verify_detailed cd io key (Some bs) = Inl TokenTooLong"
  using verify_lines_good [of cd ls fs key start_verify] assms by (simp add: verify_detailed_def start_verify_simps)

lemma verify_log_file:
  assumes "json_ok cd" and lf: "log_file cd es (Some bs)" and chain: "linked cd key [] 0 es"
  shows "verify_detailed cd io key (Some bs) = (if \<not> ai_open io then Inl OpenFailed
     else if list_all (\<lambda>l. length l < max_audit_line_bytes) (lines_of cd es) then Inr (audit_report es) else Inl TokenTooLong)"
proof (cases "ai_open io \<and> \<not> list_all (\<lambda>l. length l < max_audit_line_bytes) (lines_of cd es)")
  case True
  have es: "list_all (\<lambda>e. cd_line cd e \<noteq> None) es" "bs = unlines (lines_of cd es)"
    using lf by (simp_all add: log_file_def)
  define k where "k = length (takeWhile (\<lambda>l. length l < max_audit_line_bytes) (lines_of cd es))"
  have ls: "takeWhile (\<lambda>l. length l < max_audit_line_bytes) (lines_of cd es) = lines_of cd (take k es)"
    unfolding k_def by (metis takeWhile_eq_take take_map)
  have "list_all (\<lambda>e. cd_line cd e \<noteq> None) (take k es)"
    using es(1) by (auto simp: list_all_iff dest: in_set_takeD)
  from decode_lines_of [OF assms(1) this] linked_take [OF chain, of k]
    scan_unlines [OF clean_lines_of [OF assms(1) es(1)], of max_audit_line_bytes] True
  show ?thesis using verify_too_long [of io bs "lines_of cd (take k es)" cd "take k es" key] by (simp add: es(2) ls)
next
  case False
  then show ?thesis
    using verify_detailed_good [of io cd bs es key] read_log_file [OF assms(1) lf] chain
    by (auto simp: chain_ok_linked verify_detailed_def split: if_splits)
qed

lemma run_appends_log:
  assumes "json_ok cd"
  shows "list_all (\<lambda>(w, args, io). ai_short_write io = None) steps \<Longrightarrow> log_file cd es file \<Longrightarrow> linked cd key [] 0 es \<Longrightarrow>
    \<forall>w. al_key (logs w) \<in> {[], key} \<and> coherent cd es (logs w) \<Longrightarrow> run_appends cd steps logs file = (new, file') \<Longrightarrow>
    log_file cd (es @ new) file' \<and> linked cd key [] 0 (es @ new)"
proof (induction steps arbitrary: es logs "file" new)
  case (Cons st steps)
  obtain w args io where st: "st = (w, args, io)" by (cases st) auto
  obtain r lg file1 where run: "append_event cd io args (logs w) file = (r, lg, file1)" by (metis prod_cases3)
  obtain rest where rest: "run_appends cd steps (logs(w := lg)) file1 = (rest, file')"
    "new = (case r of Inl _ \<Rightarrow> rest | Inr e \<Rightarrow> e # rest)"
    using Cons.prems(5) by (auto simp: st run split: prod.splits)
  note one = append_event_log [OF assms Cons.prems(2) _ Cons.prems(3) _ _ run]
  define es1 where "es1 = (case r of Inl _ \<Rightarrow> es | Inr e \<Rightarrow> es @ [e])"
  have "log_file cd es1 file1 \<and> linked cd key [] 0 es1 \<and> coherent cd es1 lg \<and> al_key lg \<in> {[], key}"
    using one Cons.prems(1,3,4) by (auto simp: st es1_def split: sum.splits)
  moreover have "coherent cd es1 (logs v)" for v
    using Cons.prems(4) coherent_mono by (auto simp: es1_def split: sum.split)
  ultimately have "log_file cd (es1 @ rest) file' \<and> linked cd key [] 0 (es1 @ rest)"
    using Cons.IH [OF _ _ _ _ rest(1), of es1] Cons.prems(1,4) by (auto simp: st)
  then show ?case by (auto simp: es1_def rest(2) split: sum.splits)
qed simp


definition sample_io :: audit_io where
  "sample_io = \<lparr>ai_mkdir = True, ai_lock = True, ai_stat = Some (zero_file_state\<lparr>fs_cacheable := True\<rparr>), ai_open = True,
     ai_now = 7, ai_append = True, ai_short_write = None, ai_stat_after = Some (zero_file_state\<lparr>fs_cacheable := True\<rparr>)\<rparr>"

text \<open>A codec that knows two events, the second one keyed.\<close>

definition sample_first :: log_event where
  "sample_first = \<lparr>le_sequence = 1, le_timestamp = 7, le_type = ''init'', le_actor = '''', le_details = '''', le_prev_hash = '''',
     le_hash = ''h1'', le_scheme = ''sha256''\<rparr>"

definition sample_second :: log_event where
  "sample_second = \<lparr>le_sequence = 2, le_timestamp = 7, le_type = ''read'', le_actor = '''', le_details = '''', le_prev_hash = ''h1'',
     le_hash = ''k2'', le_scheme = ''hmac-sha256-v1''\<rparr>"

definition sample_codec :: codec where
  "sample_codec = \<lparr>cd_line = (\<lambda>e. if e = sample_first then Some ''a'' else if e = sample_second then Some ''b'' else None),
     cd_read = (\<lambda>l. if l = ''a'' then Some sample_first else if l = ''b'' then Some sample_second else None),
     cd_payload = (\<lambda>e. if le_sequence e = 1 then ''1'' else ''2''),
     cd_sha = (\<lambda>d. ''h'' @ d), cd_hmac = (\<lambda>k d. ''k'' @ d)\<rparr>"

lemma sample_json_ok: "json_ok sample_codec"
  by (auto simp: json_ok_def sample_codec_def newline_def sample_first_def sample_second_def split: if_splits)

definition sample_steps :: "(nat \<times> (string \<times> string \<times> string) \<times> audit_io) list" where
  "sample_steps = [(0, (''init'', '''', ''''), sample_io), (1, (''read'', '''', ''''), sample_io)]"

definition sample_logs :: "nat \<Rightarrow> audit_log" where
  "sample_logs w = (if w = 0 then new_log else with_key ''K'' new_log)"

lemma sample_scan: "scan_lines max_audit_line_bytes ''a\<newline>'' = ([''a''], True)"
  "scan_lines max_audit_line_bytes ''a\<newline>b\<newline>'' = ([''a'', ''b''], True)"
  by (simp_all add: scan_lines.simps newline_def max_audit_line_bytes_def drop_cr_def)

lemma sample_run: "run_appends sample_codec sample_steps sample_logs None = ([sample_first, sample_second], Some ''a\<newline>b\<newline>'')"
  by (simp add: sample_steps_def sample_logs_def append_event_def read_last_def read_events_def sample_scan sample_io_def
      next_event_def hash_event_def signed_part_def with_key_def new_log_def newline_def sized_def clear_cache_def
      cache_event_def zero_file_state_def sample_codec_def sample_first_def sample_second_def Let_def)



section \<open>Checkpoints\<close>

text \<open>No hash stands for two different events among those of two logs.\<close>

definition no_collision :: "codec \<Rightarrow> string \<Rightarrow> log_event list \<Rightarrow> log_event list \<Rightarrow> bool" where
  "no_collision cd key es fs \<longleftrightarrow> (\<forall>e\<in>set es. \<forall>f\<in>set fs. \<forall>k\<in>{[], key}. \<forall>k'\<in>{[], key}.
     snd (hash_event cd e k) = snd (hash_event cd f k') \<longrightarrow> signed_part e = signed_part f)"

lemma linked_nth:
  assumes "linked cd key [] 0 es" and "i < length es"
  shows "authentic cd key (es ! i) \<and> le_sequence (es ! i) = int i + 1
    \<and> le_prev_hash (es ! i) = (if i = 0 then [] else le_hash (es ! (i - 1)))"
proof -
  from assms(1) have prev: "map le_prev_hash es = butlast ([] # map le_hash es)" and "list_all (authentic cd key) es"
    using linked_iff [of cd key "[]" 0 es] by simp_all
  have "le_prev_hash (es ! i) = map le_prev_hash es ! i" using assms(2) by simp
  also have "\<dots> = ([] # map le_hash es) ! i"
    using assms(2) unfolding prev by (simp add: nth_butlast del: butlast.simps)
  finally show ?thesis
    using assms \<open>list_all (authentic cd key) es\<close> linked_sequence [OF assms] by (simp add: list_all_length nth_Cons')
qed

lemma authentic_hash: "authentic cd key e \<Longrightarrow> \<exists>k\<in>{[], key}. le_hash e = snd (hash_event cd e k)"
  by (auto simp: authentic_def key_for_scheme_def split: sum.splits if_splits)

lemma same_hash_same_history:
  assumes "no_collision cd key es fs" and es: "linked cd key [] 0 es" and fs: "linked cd key [] 0 fs"
  shows "i < length es \<Longrightarrow> j < length fs \<Longrightarrow> le_hash (es ! i) = le_hash (fs ! j) \<Longrightarrow>
    i = j \<and> map signed_part (take (Suc i) es) = map signed_part (take (Suc j) fs)"
proof (induction i arbitrary: j)
  have same: "signed_part (es ! i) = signed_part (fs ! j)"
    if "i < length es" "j < length fs" "le_hash (es ! i) = le_hash (fs ! j)" for i j
  proof -
    have "\<exists>k\<in>{[], key}. le_hash (es ! i) = snd (hash_event cd (es ! i) k)"
      "\<exists>k\<in>{[], key}. le_hash (fs ! j) = snd (hash_event cd (fs ! j) k)"
      using authentic_hash linked_nth [OF es] linked_nth [OF fs] that by blast+
    with assms(1) that show ?thesis by (metis no_collision_def nth_mem)
  qed
  have sq: "signed_part e = signed_part f \<Longrightarrow> le_sequence e = le_sequence f \<and> le_prev_hash e = le_prev_hash f" for e f
    by (cases e; cases f) (simp add: signed_part_def)
  {
    case 0
    then have "signed_part (es ! 0) = signed_part (fs ! j)" by (intro same)
    moreover have "le_sequence (es ! 0) = 1" "le_sequence (fs ! j) = int j + 1"
      using linked_nth [OF es 0(1)] linked_nth [OF fs 0(2)] by simp_all
    then have "j = 0" using sq [OF calculation] by simp
    ultimately show ?case
      using 0(1,2) by (simp add: take_Suc_conv_app_nth)
  next
    case (Suc i)
    then have "signed_part (es ! Suc i) = signed_part (fs ! j)" by (intro same)
    note here = linked_nth [OF es Suc.prems(1)] linked_nth [OF fs Suc.prems(2)] sq [OF this]
    then have "int (Suc i) + 1 = int j + 1" by presburger
    then have j: "j = Suc i" by simp
    with here have "le_hash (es ! i) = le_hash (fs ! i)" by simp
    with Suc.IH [of i] Suc.prems(1,2) \<open>signed_part (es ! Suc i) = signed_part (fs ! j)\<close> show ?case
      by (simp add: take_Suc_conv_app_nth j)
  }
qed

lemma verify_None_chain:
  assumes "verify cd io key (Some bs) = None"
  shows "\<exists>es. read_events cd bs = Inr es \<and> linked cd key [] 0 es"
proof -
  from assms obtain r where r: "verify_detailed cd io key (Some bs) = Inr r"
    and ok: "vr_ok r \<or> vr_err r = None" by (auto simp: verify_def split: sum.splits if_splits)
  have "vr_ok r"
  proof (rule ccontr)
    assume no: "\<not> vr_ok r"
    obtain ls fits where "scan_lines max_audit_line_bytes bs = (ls, fits)" by force
    with r no have "verify_lines cd key start_verify ls = Inl r"
      by (auto simp: verify_detailed_def verified_def split: if_splits sum.splits)
    from verify_lines_InlD [OF this] have "vr_err r \<noteq> None" by blast
    with ok no show False by blast
  qed
  from verify_detailed_ok [OF r this] show ?thesis by (auto simp: chain_ok_linked)
qed

text \<open>C15: A checkpoint pins the history. When a later log verifies and any of its events carries the
  checkpoint's hash, its first events are those of the log at the checkpoint, in all fields but the scheme.\<close>

theorem checkpoint_pins_history:
  assumes "verify cd io key (Some bs) = None" and "checkpoint cd io' (Some bs) new_log = (Inr (n, h), lg)"
    and "verify cd io2 key (Some bs2) = None" and "read_events cd bs = Inr es" and "read_events cd bs2 = Inr fs"
    and "no_collision cd key es fs" and "h \<in> set (map le_hash fs)"
  shows "n = int (length es) \<and> map signed_part (take (length es) fs) = map signed_part es"
proof -
  have es: "linked cd key [] 0 es" and fs: "linked cd key [] 0 fs"
    using verify_None_chain [OF assms(1)] verify_None_chain [OF assms(3)] assms(4,5) by auto
  have cp: "n = int (length es)" "es \<noteq> [] \<longrightarrow> h = le_hash (last es)"
    using assms(2,4)
    by (auto simp: checkpoint_def read_last_def new_log_def Let_def split: option.splits if_splits prod.splits sum.splits)
  show ?thesis
  proof (cases "es = []")
    case False
    then have "length es - 1 < length es" by simp
    moreover obtain j where "j < length fs" "h = le_hash (fs ! j)" using assms(7) by (auto simp: in_set_conv_nth)
    ultimately have "Suc j = length es" "map signed_part (take (Suc (length es - 1)) es) = map signed_part (take (Suc j) fs)"
      using same_hash_same_history [OF assms(6) es fs, of "length es - 1" j] cp False by (auto simp: last_conv_nth)
    then show ?thesis using cp(1) by simp
  qed (use cp in simp)
qed

theorem checkpoint_pins_history_witness:
  "map signed_part (take 1 [sample_first, sample_second]) = map signed_part [sample_first]"
proof -
  have reads: "read_events sample_codec ''a\<newline>'' = Inr [sample_first]"
    "read_events sample_codec ''a\<newline>b\<newline>'' = Inr [sample_first, sample_second]"
    by (simp_all add: read_events_def sample_scan sample_codec_def)
  have v: "verify sample_codec sample_io ''K'' (Some ''a\<newline>'') = None"
    "verify sample_codec sample_io ''K'' (Some ''a\<newline>b\<newline>'') = None"
    by (simp_all add: verify_def verify_detailed_def sample_scan verify_line_def start_verify_def key_for_scheme_def
        hash_event_def signed_part_def verified_def sample_codec_def sample_first_def sample_second_def sample_io_def Let_def)
  have c: "\<exists>lg. checkpoint sample_codec sample_io (Some ''a\<newline>'') new_log = (Inr (1, ''h1''), lg)"
    by (simp add: checkpoint_def read_last_def reads sample_io_def sized_def new_log_def Let_def sample_first_def)
  have n: "no_collision sample_codec ''K'' [sample_first] [sample_first, sample_second]"
    by (simp add: no_collision_def hash_event_def signed_part_def sample_codec_def sample_first_def sample_second_def Let_def)
  have h: "''h1'' \<in> set (map le_hash [sample_first, sample_second])"
    by (simp add: sample_first_def)
  from c obtain lg where "checkpoint sample_codec sample_io (Some ''a\<newline>'') new_log = (Inr (1, ''h1''), lg)" by blast
  from checkpoint_pins_history [OF v(1) this v(2) reads n h] show ?thesis by simp
qed

text \<open>An event whose line does not fit the readers' buffer is appended without complaint, and from
  then on every writer that has to read the file fails to append.\<close>

theorem oversized_event_blocks_log:
  assumes "json_ok cd" and "log_file cd es file" and "append_event cd io args new_log file = (Inr e, lg, Some bs)"
    and "max_audit_line_bytes \<le> length (the (cd_line cd e))"
  shows "fst (append_event cd io2 args2 (with_key key new_log) (Some bs)) \<in>
    {Inl CreateDirFailed, Inl LockFailed, Inl StatFailed, Inl OpenFailed, Inl TokenTooLong}"
proof -
  have "bs = (case file of None \<Rightarrow> [] | Some b \<Rightarrow> b) @ the (cd_line cd e) @ [newline]" "cd_line cd e \<noteq> None"
    using assms(3) by (auto simp: append_event_def Let_def split: if_splits sum.splits prod.splits option.splits)
  then have "log_file cd (es @ [e]) (Some bs)"
    using assms(2) by (auto simp: log_file_def unlines_def split: option.splits)
  from read_log_file [OF assms(1) this] assms(4) have "read_events cd bs = Inl TokenTooLong" by simp
  then show ?thesis
    by (auto simp: append_event_def read_last_def with_key_def new_log_def Let_def split: option.split)
qed

definition long_codec :: codec where
  "long_codec = \<lparr>cd_line = (\<lambda>e. if e = sample_first then Some (replicate max_audit_line_bytes CHR ''a'') else None),
     cd_read = (\<lambda>l. Some sample_first), cd_payload = (\<lambda>e. ''1''), cd_sha = (\<lambda>d. ''h'' @ d), cd_hmac = (\<lambda>k d. ''k'' @ d)\<rparr>"

theorem oversized_event_blocks_log_witness:
  "fst (append_event long_codec sample_io (''read'', '''', '''') (with_key ''K'' new_log)
     (Some (replicate max_audit_line_bytes CHR ''a'' @ [newline]))) \<in>
   {Inl CreateDirFailed, Inl LockFailed, Inl StatFailed, Inl OpenFailed, Inl TokenTooLong}"
proof -
  have j: "json_ok long_codec"
    by (auto simp: json_ok_def long_codec_def newline_def max_audit_line_bytes_def split: if_splits)
  have f: "log_file long_codec [] None" by (simp add: log_file_def)
  have "\<exists>lg. append_event long_codec sample_io (''init'', '''', '''') new_log None
      = (Inr sample_first, lg, Some (replicate max_audit_line_bytes CHR ''a'' @ [newline]))"
    by (simp add: append_event_def read_last_def sample_io_def next_event_def hash_event_def clear_cache_def new_log_def
        long_codec_def sample_first_def Let_def)
  then obtain lg where "append_event long_codec sample_io (''init'', '''', '''') new_log None
      = (Inr sample_first, lg, Some (replicate max_audit_line_bytes CHR ''a'' @ [newline]))" by blast
  from oversized_event_blocks_log [OF j f this] show ?thesis by (simp add: long_codec_def)
qed

end
