(* ===== verification/Lifecycle.thy ===== *)
theory Lifecycle
  imports Vault "HOL-Library.Word"
begin

text \<open>
  The vault file and its keys: \<^verbatim>\<open>crypto.go\<close>, \<^verbatim>\<open>envelope.go\<close> and \<^verbatim>\<open>lifecycle.go\<close> of
  \<^verbatim>\<open>internal/store\<close>. A random vault key seals the state; the master password (through a key
  derivation recorded in the header) and, optionally, a device key in the keyring each wrap the
  vault key.

  Primitives that are not the program's own (AES-GCM, the key derivations, base64, hex, JSON of
  the state) are the fields of a \<open>crypto\<close>; \<open>crypto_ok\<close> states the laws the proofs use. The file
  system is three files (the vault, its \<^verbatim>\<open>.prev\<close> copy and the temporary file), and a write is the
  list of the states it passes through, so that a crash is the choice of one of them.
\<close>

section \<open>Key derivation and sealing\<close>

record kdf_spec =
  kd_name :: string
  kd_salt :: string
  kd_key_length :: int
  kd_iterations :: int
  kd_time :: "32 word"
  kd_memory :: "32 word"
  kd_parallelism :: "8 word"

record sealed_blob =
  bl_nonce :: string
  bl_ciphertext :: string

record crypto =
  cy_b64 :: "string \<Rightarrow> string"
  cy_unb64 :: "string \<Rightarrow> string option"
  cy_hex :: "string \<Rightarrow> string"
  cy_unhex :: "string \<Rightarrow> string option"
  cy_argon2 :: "string \<Rightarrow> string \<Rightarrow> 32 word \<Rightarrow> 32 word \<Rightarrow> 8 word \<Rightarrow> 32 word \<Rightarrow> string"
  cy_pbkdf2 :: "string \<Rightarrow> string \<Rightarrow> int \<Rightarrow> int \<Rightarrow> string option"
  cy_seal :: "string \<Rightarrow> string \<Rightarrow> string \<Rightarrow> string"
  cy_open :: "string \<Rightarrow> string \<Rightarrow> string \<Rightarrow> string option"
  cy_hmac :: "string \<Rightarrow> string \<Rightarrow> string"
  cy_state :: "vault \<Rightarrow> string option"
  cy_unstate :: "string \<Rightarrow> vault option"

datatype write_error = CreateDir | EncodeEnvelope | CreateTemp | CloseTemp | WriteTemp | OpenTemp | SyncTemp
  | LockReplacement | ReadForRotation | WritePrev | RenameVault | SyncDir

datatype life_error = BadSalt | BadArgonParams | BadIterations int | UnknownKdf string | KdfFailed
  | BadKeySize | RandomUnavailable | BadNonce | BadCiphertext | BadNonceSize | CipherAuth
  | StateNotEncoded | StateNotDecoded | NotInitialized | VaultUnreadable | VaultUndecodable
  | WriteVault write_error | PasswordRequired | CreateHomeFailed | StatVaultFailed | VaultExists
  | InvalidPassword | DecryptState life_error | KeyringUnavailable | ClearWrapFailed write_error | ForgetKeychainFailed

definition key_length :: int where
  "key_length = 32"

definition nonce_size :: nat where
  "nonce_size = 12"

text \<open>A draw of random bytes: \<open>rand.Read\<close> fills the buffer or fails.\<close>

definition random_bytes :: "nat \<Rightarrow> string option \<Rightarrow> life_error + string" where
  "random_bytes n draw =
     (case draw of Some bs \<Rightarrow> if length bs = n then Inr bs else Inl RandomUnavailable | None \<Rightarrow> Inl RandomUnavailable)"

definition derive_from_spec :: "crypto \<Rightarrow> string \<Rightarrow> kdf_spec \<Rightarrow> life_error + string" where
  "derive_from_spec cy password spec =
     (case cy_unb64 cy (kd_salt spec) of
        None \<Rightarrow> Inl BadSalt
      | Some salt \<Rightarrow>
          if kd_name spec = ''argon2id'' then
            (if kd_time spec = 0 \<or> kd_memory spec = 0 \<or> kd_parallelism spec = 0 then Inl BadArgonParams
             else Inr (cy_argon2 cy password salt (kd_time spec) (kd_memory spec) (kd_parallelism spec)
                    (word_of_int (kd_key_length spec))))
          else if kd_name spec = ''pbkdf2-sha256'' \<or> kd_name spec = '''' then
            (if kd_iterations spec \<le> 0 then Inl (BadIterations (kd_iterations spec))
             else (case cy_pbkdf2 cy password salt (kd_iterations spec) (kd_key_length spec) of
                     None \<Rightarrow> Inl KdfFailed | Some k \<Rightarrow> Inr k))
          else Inl (UnknownKdf (kd_name spec)))"

text \<open>The production parameters of a new wrap.\<close>

definition fresh_spec :: "crypto \<Rightarrow> string \<Rightarrow> kdf_spec" where
  "fresh_spec cy salt = \<lparr>kd_name = ''argon2id'', kd_salt = cy_b64 cy salt, kd_key_length = key_length, kd_iterations = 0,
     kd_time = 3, kd_memory = 65536, kd_parallelism = 1\<rparr>"

definition derive_password_wrap :: "crypto \<Rightarrow> string option \<Rightarrow> string \<Rightarrow> life_error + kdf_spec \<times> string" where
  "derive_password_wrap cy draw password =
     bind_r (random_bytes 16 draw) (\<lambda>salt.
     bind_r (derive_from_spec cy password (fresh_spec cy salt)) (\<lambda>key. Inr (fresh_spec cy salt, key)))"

definition aes_key_size :: "string \<Rightarrow> bool" where
  "aes_key_size key \<longleftrightarrow> length key \<in> {16, 24, 32}"

definition seal_bytes :: "crypto \<Rightarrow> string \<Rightarrow> string option \<Rightarrow> string \<Rightarrow> life_error + sealed_blob" where
  "seal_bytes cy key draw plaintext =
     (if \<not> aes_key_size key then Inl BadKeySize
      else bind_r (random_bytes nonce_size draw) (\<lambda>nonce.
        Inr \<lparr>bl_nonce = cy_b64 cy nonce, bl_ciphertext = cy_b64 cy (cy_seal cy key nonce plaintext)\<rparr>))"

definition open_bytes :: "crypto \<Rightarrow> string \<Rightarrow> sealed_blob \<Rightarrow> life_error + string" where
  "open_bytes cy key blob =
     (if \<not> aes_key_size key then Inl BadKeySize
      else (case cy_unb64 cy (bl_nonce blob) of
          None \<Rightarrow> Inl BadNonce
        | Some nonce \<Rightarrow> (case cy_unb64 cy (bl_ciphertext blob) of
            None \<Rightarrow> Inl BadCiphertext
          | Some ct \<Rightarrow>
              if length nonce \<noteq> nonce_size then Inl BadNonceSize
              else (case cy_open cy key nonce ct of None \<Rightarrow> Inl CipherAuth | Some p \<Rightarrow> Inr p))))"

definition seal_state :: "crypto \<Rightarrow> string \<Rightarrow> string option \<Rightarrow> vault \<Rightarrow> life_error + sealed_blob" where
  "seal_state cy key draw v =
     (case cy_state cy v of None \<Rightarrow> Inl StateNotEncoded | Some data \<Rightarrow> seal_bytes cy key draw data)"

definition open_state :: "crypto \<Rightarrow> string \<Rightarrow> sealed_blob \<Rightarrow> life_error + vault" where
  "open_state cy key blob =
     bind_r (open_bytes cy key blob) (\<lambda>data.
       case cy_unstate cy data of None \<Rightarrow> Inl StateNotDecoded | Some v \<Rightarrow> Inr (read_state v))"

section \<open>The envelope file\<close>

record envelope_header =
  eh_version :: int
  eh_created_at :: time
  eh_updated_at :: time
  eh_kdf :: kdf_spec
  eh_password_wrap :: sealed_blob
  eh_convenience_wrap :: "sealed_blob option"

record file_envelope =
  fe_header :: envelope_header
  fe_data :: sealed_blob

text \<open>What a file holds: nothing, bytes that cannot be read, bytes that are no envelope, an envelope.\<close>

datatype env_file = Missing | Unreadable | Torn | Whole file_envelope

record env_disk =
  ed_main :: env_file
  ed_prev :: env_file
  ed_tmp :: env_file

definition read_envelope_strict :: "env_disk \<Rightarrow> life_error + file_envelope" where
  "read_envelope_strict d =
     (case ed_main d of
        Missing \<Rightarrow> Inl NotInitialized
      | Unreadable \<Rightarrow> Inl VaultUnreadable
      | Torn \<Rightarrow> Inl VaultUndecodable
      | Whole e \<Rightarrow> Inr e)"

text \<open>The second component tells whether the fall-back event is logged.\<close>

definition read_envelope :: "env_disk \<Rightarrow> (life_error + file_envelope) \<times> bool" where
  "read_envelope d =
     (case read_envelope_strict d of
        Inr e \<Rightarrow> (Inr e, False)
      | Inl err \<Rightarrow> (case ed_prev d of Whole e \<Rightarrow> (Inr e, True) | _ \<Rightarrow> (Inl err, False)))"

text \<open>The outcomes of the system calls of one write, in their order.\<close>

record write_io =
  wi_mkdir :: bool
  wi_encode :: bool
  wi_create :: bool
  wi_close :: bool
  wi_write :: bool
  wi_open :: bool
  wi_sync :: bool
  wi_lock :: bool
  wi_stat :: bool
  wi_read :: bool
  wi_write_prev :: bool
  wi_rename :: bool
  wi_sync_dir :: bool

definition write_ok :: write_io where
  "write_ok = \<lparr>wi_mkdir = True, wi_encode = True, wi_create = True, wi_close = True, wi_write = True, wi_open = True,
     wi_sync = True, wi_lock = True, wi_stat = True, wi_read = True, wi_write_prev = True, wi_rename = True, wi_sync_dir = True\<rparr>"

text \<open>The write as the sequence of disk states it passes through, the last one being the result. A
  file is torn while it is written; the rename is one step.\<close>

definition write_envelope_file :: "write_io \<Rightarrow> file_envelope \<Rightarrow> env_disk \<Rightarrow> write_error option \<times> env_disk list" where
  "write_envelope_file io env d =
     (if \<not> wi_mkdir io then (Some CreateDir, [d])
      else if \<not> wi_encode io then (Some EncodeEnvelope, [d])
      else if \<not> wi_create io then (Some CreateTemp, [d])
      else
        let empty = d\<lparr>ed_tmp := Torn\<rparr>;
            synced = d\<lparr>ed_tmp := Whole env\<rparr>;
            undone = d\<lparr>ed_tmp := Missing\<rparr>
        in if \<not> wi_close io then (Some CloseTemp, [empty, undone])
           else if \<not> wi_write io then (Some WriteTemp, [empty, undone])
           else if \<not> wi_open io then (Some OpenTemp, [empty, synced, undone])
           else if \<not> wi_sync io then (Some SyncTemp, [empty, synced, undone])
           else if \<not> wi_lock io then (Some LockReplacement, [empty, synced, undone])
           else
             let rotate = ed_main d \<noteq> Missing \<and> wi_stat io;
                 rotating = (if rotate then [synced\<lparr>ed_prev := Torn\<rparr>] else []);
                 rotated = (if rotate then synced\<lparr>ed_prev := ed_main d\<rparr> else synced)
             in if rotate \<and> (ed_main d = Unreadable \<or> \<not> wi_read io) then (Some ReadForRotation, [empty, synced, undone])
                else if rotate \<and> \<not> wi_write_prev io
                  then (Some WritePrev, [empty, synced] @ rotating @ [undone\<lparr>ed_prev := Torn\<rparr>])
                else if \<not> wi_rename io
                  then (Some RenameVault, [empty, synced] @ rotating @ [rotated, rotated\<lparr>ed_tmp := Missing\<rparr>])
                else ((if wi_sync_dir io then None else Some SyncDir),
                      [empty, synced] @ rotating @ [rotated, rotated\<lparr>ed_main := Whole env, ed_tmp := Missing\<rparr>]))"

section \<open>The store\<close>

record vault_store =
  vt_path :: string
  vt_disk :: env_disk
  vt_keyring :: "string option"
  vt_trail :: "audit_event list"

record open_handle =
  oh_state :: vault
  oh_key :: string

definition note_event :: "string \<Rightarrow> string \<Rightarrow> (string \<times> detail) list \<Rightarrow> vault_store \<Rightarrow> vault_store" where
  "note_event type actor details st =
     st\<lparr>vt_trail := vt_trail st @ [\<lparr>ae_type = type, ae_actor = actor, ae_details = details\<rparr>]\<rparr>"

definition load_envelope :: "vault_store \<Rightarrow> (life_error + file_envelope) \<times> vault_store" where
  "load_envelope st =
     (case read_envelope (vt_disk st) of
        (r, fallback) \<Rightarrow> (r, if fallback then note_event ''deny'' ''system''
          [(''action'', DStr ''vault.envelope.fallback_to_prev''), (''state_path'', DStr (vt_path st)),
           (''prev_path'', DStr (vt_path st @ ''.prev''))] st else st))"

definition store_envelope :: "write_io \<Rightarrow> file_envelope \<Rightarrow> vault_store \<Rightarrow> write_error option \<times> vault_store" where
  "store_envelope io env st =
     (case write_envelope_file io env (vt_disk st) of (e, ds) \<Rightarrow> (e, st\<lparr>vt_disk := last ds\<rparr>))"

definition validate_master_password :: "string \<Rightarrow> life_error option" where
  "validate_master_password password = (if trim password = [] then Some PasswordRequired else None)"

text \<open>\<open>rnd\<close> gives the draws of random bytes in the order of the calls.\<close>

definition new_envelope :: "crypto \<Rightarrow> (nat \<Rightarrow> string option) \<Rightarrow> (nat \<Rightarrow> time) \<Rightarrow> string \<Rightarrow> life_error + file_envelope" where
  "new_envelope cy rnd clock password =
     bind_r (random_bytes (nat key_length) (rnd 0)) (\<lambda>vk.
     bind_r (derive_password_wrap cy (rnd 1) password) (\<lambda>(spec, wk).
     bind_r (seal_bytes cy wk (rnd 2) vk) (\<lambda>wrap.
     bind_r (seal_state cy vk (rnd 3) empty_vault) (\<lambda>data.
       Inr \<lparr>fe_header = \<lparr>eh_version = 1, eh_created_at = clock 0, eh_updated_at = clock 1, eh_kdf = spec,
              eh_password_wrap = wrap, eh_convenience_wrap = None\<rparr>, fe_data = data\<rparr>))))"

definition init_vault ::
    "crypto \<Rightarrow> write_io \<Rightarrow> bool \<Rightarrow> bool \<Rightarrow> (nat \<Rightarrow> string option) \<Rightarrow> (nat \<Rightarrow> time) \<Rightarrow> string \<Rightarrow> vault_store
      \<Rightarrow> life_error option \<times> vault_store" where
  "init_vault cy io home stat rnd clock password st =
     (if validate_master_password password \<noteq> None then (validate_master_password password, st)
      else if \<not> home then (Some CreateHomeFailed, st)
      else if ed_main (vt_disk st) \<noteq> Missing \<and> stat then (Some VaultExists, st)
      else if \<not> stat then (Some StatVaultFailed, st)
      else (case new_envelope cy rnd clock password of
          Inl e \<Rightarrow> (Some e, st)
        | Inr env \<Rightarrow> (case store_envelope io env st of
            (Some e, st1) \<Rightarrow> (Some (WriteVault e), st1)
          | (None, st1) \<Rightarrow> (None, note_event ''init'' ''user'' [(''state_path'', DStr (vt_path st))] st1))))"

definition open_with_password :: "crypto \<Rightarrow> string \<Rightarrow> vault_store \<Rightarrow> (life_error + open_handle) \<times> vault_store" where
  "open_with_password cy password st =
     (case load_envelope st of
        (Inl e, st1) \<Rightarrow> (Inl e, st1)
      | (Inr env, st1) \<Rightarrow> (case derive_from_spec cy password (eh_kdf (fe_header env)) of
          Inl e \<Rightarrow> (Inl e, st1)
        | Inr wk \<Rightarrow> (case open_bytes cy wk (eh_password_wrap (fe_header env)) of
            Inl _ \<Rightarrow> (Inl InvalidPassword, st1)
          | Inr vk \<Rightarrow> (case open_state cy vk (fe_data env) of
              Inl e \<Rightarrow> (Inl (if e = CipherAuth then InvalidPassword else DecryptState e), st1)
            | Inr v \<Rightarrow> (Inr \<lparr>oh_state = v, oh_key = vk\<rparr>, st1)))))"

definition encode_convenience_key :: "crypto \<Rightarrow> string \<Rightarrow> string" where
  "encode_convenience_key cy key = cy_hex cy key"

definition decode_convenience_key :: "crypto \<Rightarrow> string \<Rightarrow> life_error + string" where
  "decode_convenience_key cy value =
     (if trim value = [] then Inl KeyringUnavailable
      else (case cy_unhex cy (trim value) of
              Some k \<Rightarrow> if k \<noteq> [] then Inr k else Inr value
            | None \<Rightarrow> Inr value))"

definition open_with_convenience_unlock :: "crypto \<Rightarrow> bool \<Rightarrow> vault_store \<Rightarrow> (life_error + open_handle) \<times> vault_store" where
  "open_with_convenience_unlock cy readable st =
     (case load_envelope st of
        (Inl e, st1) \<Rightarrow> (Inl e, st1)
      | (Inr env, st1) \<Rightarrow> (case eh_convenience_wrap (fe_header env) of
          None \<Rightarrow> (Inl KeyringUnavailable, st1)
        | Some wrap \<Rightarrow> (case (if readable then vt_keyring st1 else None) of
            None \<Rightarrow> (Inl KeyringUnavailable, st1)
          | Some raw \<Rightarrow> (case bind_r (decode_convenience_key cy raw) (\<lambda>dk. open_bytes cy dk wrap) of
              Inl _ \<Rightarrow> (Inl KeyringUnavailable, st1)
            | Inr vk \<Rightarrow> (case open_state cy vk (fe_data env) of
                Inl e \<Rightarrow> (Inl (if e = CipherAuth then KeyringUnavailable else DecryptState e), st1)
              | Inr v \<Rightarrow> (Inr \<lparr>oh_state = v, oh_key = vk\<rparr>, st1))))))"

definition enable_convenience_unlock ::
    "crypto \<Rightarrow> write_io \<Rightarrow> bool \<Rightarrow> (nat \<Rightarrow> string option) \<Rightarrow> time \<Rightarrow> open_handle \<Rightarrow> vault_store
      \<Rightarrow> life_error option \<times> vault_store" where
  "enable_convenience_unlock cy io settable rnd now h st =
     (case load_envelope st of
        (Inl e, st1) \<Rightarrow> (Some e, st1)
      | (Inr env, st1) \<Rightarrow> (case random_bytes (nat key_length) (rnd 0) of
          Inl e \<Rightarrow> (Some e, st1)
        | Inr dk \<Rightarrow> (case seal_bytes cy dk (rnd 1) (oh_key h) of
            Inl e \<Rightarrow> (Some e, st1)
          | Inr wrap \<Rightarrow>
              if \<not> settable then (Some KeyringUnavailable, st1)
              else (case store_envelope io (env\<lparr>fe_header := (fe_header env)\<lparr>eh_convenience_wrap := Some wrap, eh_updated_at := now\<rparr>\<rparr>)
                      (st1\<lparr>vt_keyring := Some (encode_convenience_key cy dk)\<rparr>) of
                  (Some e, st2) \<Rightarrow> (Some (WriteVault e), st2)
                | (None, st2) \<Rightarrow> (None, st2)))))"

text \<open>How the keyring answers a deletion.\<close>

datatype keyring_delete = Deleted | DeleteUnavailable | DeleteFailed

definition disable_convenience_unlock ::
    "write_io \<Rightarrow> keyring_delete \<Rightarrow> time \<Rightarrow> vault_store \<Rightarrow> (bool \<times> life_error option) \<times> vault_store" where
  "disable_convenience_unlock io del_result now st =
     (case load_envelope st of
        (Inl e, st1) \<Rightarrow> ((False, Some e), st1)
      | (Inr env, st1) \<Rightarrow>
          if eh_convenience_wrap (fe_header env) = None then ((False, None), st1)
          else (case store_envelope io (env\<lparr>fe_header := (fe_header env)\<lparr>eh_convenience_wrap := None, eh_updated_at := now\<rparr>\<rparr>) st1 of
              (Some e, st2) \<Rightarrow> ((False, Some (ClearWrapFailed e)), st2)
            | (None, st2) \<Rightarrow> (case del_result of
                Deleted \<Rightarrow> ((True, None), st2\<lparr>vt_keyring := None\<rparr>)
              | DeleteUnavailable \<Rightarrow> ((True, None), st2)
              | DeleteFailed \<Rightarrow> ((True, Some ForgetKeychainFailed), st2))))"

definition rekdf_with_password ::
    "crypto \<Rightarrow> write_io \<Rightarrow> (nat \<Rightarrow> string option) \<Rightarrow> time \<Rightarrow> string \<Rightarrow> open_handle \<Rightarrow> vault_store
      \<Rightarrow> (string \<times> string \<times> life_error option) \<times> vault_store" where
  "rekdf_with_password cy io rnd now password h st =
     (case load_envelope st of
        (Inl e, st1) \<Rightarrow> (('''', '''', Some e), st1)
      | (Inr env, st1) \<Rightarrow>
          let hd = fe_header env;
              old = (if kd_name (eh_kdf hd) = '''' then ''pbkdf2-sha256'' else kd_name (eh_kdf hd))
          in (case derive_from_spec cy password (eh_kdf hd) of
              Inl e \<Rightarrow> ((old, '''', Some e), st1)
            | Inr wk \<Rightarrow> (case open_bytes cy wk (eh_password_wrap hd) of
                Inl _ \<Rightarrow> ((old, '''', Some InvalidPassword), st1)
              | Inr _ \<Rightarrow> (case derive_password_wrap cy (rnd 0) password of
                  Inl e \<Rightarrow> ((old, '''', Some e), st1)
                | Inr (spec, wk') \<Rightarrow> (case seal_bytes cy wk' (rnd 1) (oh_key h) of
                    Inl e \<Rightarrow> ((old, kd_name spec, Some e), st1)
                  | Inr wrap \<Rightarrow>
                     (case store_envelope io (env\<lparr>fe_header := hd\<lparr>eh_kdf := spec, eh_password_wrap := wrap, eh_updated_at := now\<rparr>\<rparr>) st1 of
                        (Some e, st2) \<Rightarrow> ((old, kd_name spec, Some (WriteVault e)), st2)
                      | (None, st2) \<Rightarrow> ((old, kd_name spec, None),
                          note_event ''rekdf'' ''user'' [(''from'', DStr old), (''to'', DStr (kd_name spec))] st2)))))))"

definition rekey_password ::
    "crypto \<Rightarrow> write_io \<Rightarrow> (nat \<Rightarrow> string option) \<Rightarrow> time \<Rightarrow> string \<Rightarrow> string \<Rightarrow> open_handle \<Rightarrow> vault_store
      \<Rightarrow> life_error option \<times> vault_store" where
  "rekey_password cy io rnd now old new h st =
     (if validate_master_password old \<noteq> None then (validate_master_password old, st)
      else if validate_master_password new \<noteq> None then (validate_master_password new, st)
      else (case load_envelope st of
          (Inl e, st1) \<Rightarrow> (Some e, st1)
        | (Inr env, st1) \<Rightarrow>
            let hd = fe_header env in
            (case derive_from_spec cy old (eh_kdf hd) of
              Inl e \<Rightarrow> (Some e, st1)
            | Inr wk \<Rightarrow> (case open_bytes cy wk (eh_password_wrap hd) of
                Inl _ \<Rightarrow> (Some InvalidPassword, st1)
              | Inr _ \<Rightarrow> (case derive_password_wrap cy (rnd 0) new of
                  Inl e \<Rightarrow> (Some e, st1)
                | Inr (spec, wk') \<Rightarrow> (case seal_bytes cy wk' (rnd 1) (oh_key h) of
                    Inl e \<Rightarrow> (Some e, st1)
                  | Inr wrap \<Rightarrow>
                     (case store_envelope io (env\<lparr>fe_header := hd\<lparr>eh_kdf := spec, eh_password_wrap := wrap,
                            eh_convenience_wrap := None, eh_updated_at := now\<rparr>\<rparr>) st1 of
                        (Some e, st2) \<Rightarrow> (Some (WriteVault e), st2)
                      | (None, st2) \<Rightarrow> (None, note_event ''rekey'' ''user'' [(''convenience_cleared'', DBool True)] st2))))))))"

definition audit_key_domain :: string where
  "audit_key_domain = ''hasp-audit-v1''"

definition audit_hmac_key :: "crypto \<Rightarrow> open_handle \<Rightarrow> string" where
  "audit_hmac_key cy h = (if oh_key h = [] then [] else cy_hmac cy (oh_key h) audit_key_domain)"

section \<open>Laws of the primitives\<close>

definition crypto_ok :: "crypto \<Rightarrow> bool" where
  "crypto_ok cy \<longleftrightarrow> (\<forall>x. cy_unb64 cy (cy_b64 cy x) = Some x)
     \<and> (\<forall>k n p. cy_open cy k n (cy_seal cy k n p) = Some p)
     \<and> (\<forall>k k' n n' p. k \<noteq> k' \<longrightarrow> cy_open cy k n' (cy_seal cy k' n p) = None)
     \<and> (\<forall>v d. cy_state cy v = Some d \<longrightarrow> cy_unstate cy d = Some v)
     \<and> (\<forall>x. x \<noteq> [] \<longrightarrow> cy_unhex cy (cy_hex cy x) = Some x \<and> trim (cy_hex cy x) = cy_hex cy x \<and> cy_hex cy x \<noteq> [])"

lemma open_sealed:
  "crypto_ok cy \<Longrightarrow> seal_bytes cy k draw p = Inr b \<Longrightarrow> open_bytes cy k b = Inr p"
  by (auto simp: seal_bytes_def open_bytes_def crypto_ok_def random_bytes_def bind_r_def split: if_splits option.splits sum.splits)

lemma open_sealed_other:
  "crypto_ok cy \<Longrightarrow> seal_bytes cy k draw p = Inr b \<Longrightarrow> k' \<noteq> k \<Longrightarrow> open_bytes cy k' b \<in> {Inl CipherAuth, Inl BadKeySize}"
  by (auto simp: seal_bytes_def open_bytes_def crypto_ok_def random_bytes_def bind_r_def split: if_splits option.splits sum.splits)

lemma note_event_simps [simp]:
  "vt_disk (note_event ty ac de st) = vt_disk st" "vt_keyring (note_event ty ac de st) = vt_keyring st"
  "vt_path (note_event ty ac de st) = vt_path st"
  by (simp_all add: note_event_def)

lemma load_envelope_simps [simp]:
  "vt_disk (snd (load_envelope st)) = vt_disk st" "vt_keyring (snd (load_envelope st)) = vt_keyring st"
  by (simp_all add: load_envelope_def split: prod.split)

lemma load_envelope_same: "fst (load_envelope st) = fst (read_envelope (vt_disk st))"
  by (simp add: load_envelope_def split: prod.split)

lemma load_envelope_eqD:
  "load_envelope st = (r, st1) \<Longrightarrow> vt_disk st1 = vt_disk st \<and> vt_keyring st1 = vt_keyring st \<and> r = fst (read_envelope (vt_disk st))"
  using load_envelope_simps [of st] load_envelope_same [of st] by auto

lemma read_envelope_main: "ed_main d = Whole e \<Longrightarrow> read_envelope d = (Inr e, False)"
  by (simp add: read_envelope_def read_envelope_strict_def)

lemma load_envelope_main: "ed_main (vt_disk st) = Whole e \<Longrightarrow> load_envelope st = (Inr e, st)"
  by (simp add: load_envelope_def read_envelope_main)

lemma store_envelope_ok:
  assumes "store_envelope io env st = (None, st')"
  shows "ed_main (vt_disk st') = Whole env" "vt_keyring st' = vt_keyring st" "vt_path st' = vt_path st"
    "ed_main (vt_disk st) = Whole e \<Longrightarrow> wi_stat io \<Longrightarrow> ed_prev (vt_disk st') = Whole e"
  using assms by (auto simp: store_envelope_def write_envelope_file_def Let_def split: if_splits prod.splits)

section \<open>Crash safety of the write\<close>


definition sample_envelope :: "string \<Rightarrow> file_envelope" where
  "sample_envelope d = \<lparr>fe_header = \<lparr>eh_version = 1, eh_created_at = 0, eh_updated_at = 0,
     eh_kdf = \<lparr>kd_name = '''', kd_salt = '''', kd_key_length = 32, kd_iterations = 1, kd_time = 0, kd_memory = 0, kd_parallelism = 0\<rparr>,
     eh_password_wrap = \<lparr>bl_nonce = '''', bl_ciphertext = ''''\<rparr>, eh_convenience_wrap = None\<rparr>,
     fe_data = \<lparr>bl_nonce = '''', bl_ciphertext = d\<rparr>\<rparr>"


text \<open>C25: The condition on the main file is needed. When it is torn, the open operations fall back to the
  copy, and the next write of the header copies the torn file over that copy before the rename: a crash in
  between leaves no readable vault, although the temporary file holds the new envelope.\<close>

theorem rotation_destroys_last_copy:
  "let d = \<lparr>ed_main = Torn, ed_prev = Whole old, ed_tmp = Missing\<rparr>; (r, ds) = write_envelope_file write_ok env d in
   fst (read_envelope d) = Inr old \<and> r = None \<and>
   list_ex (\<lambda>d'. fst (read_envelope d') = Inl VaultUndecodable \<and> ed_tmp d' = Whole env) ds"
  by (simp add: write_envelope_file_def write_ok_def read_envelope_def read_envelope_strict_def Let_def)


section \<open>Opening\<close>

lemma open_with_password_unfold:
  "fst (open_with_password cy pw st) =
     bind_r (fst (read_envelope (vt_disk st))) (\<lambda>env.
     bind_r (derive_from_spec cy pw (eh_kdf (fe_header env))) (\<lambda>wk.
       case open_bytes cy wk (eh_password_wrap (fe_header env)) of
         Inl _ \<Rightarrow> Inl InvalidPassword
       | Inr vk \<Rightarrow> (case open_state cy vk (fe_data env) of
           Inl e \<Rightarrow> Inl (if e = CipherAuth then InvalidPassword else DecryptState e)
         | Inr v \<Rightarrow> Inr \<lparr>oh_state = v, oh_key = vk\<rparr>)))"
  by (simp add: open_with_password_def bind_r_def load_envelope_same [symmetric] split: prod.split sum.split)

lemma open_with_convenience_unfold:
  "fst (open_with_convenience_unlock cy readable st) =
     bind_r (fst (read_envelope (vt_disk st))) (\<lambda>env.
       case eh_convenience_wrap (fe_header env) of
         None \<Rightarrow> Inl KeyringUnavailable
       | Some wrap \<Rightarrow> (case (if readable then vt_keyring st else None) of
           None \<Rightarrow> Inl KeyringUnavailable
         | Some raw \<Rightarrow> (case bind_r (decode_convenience_key cy raw) (\<lambda>dk. open_bytes cy dk wrap) of
             Inl _ \<Rightarrow> Inl KeyringUnavailable
           | Inr vk \<Rightarrow> (case open_state cy vk (fe_data env) of
               Inl e \<Rightarrow> Inl (if e = CipherAuth then KeyringUnavailable else DecryptState e)
             | Inr v \<Rightarrow> Inr \<lparr>oh_state = v, oh_key = vk\<rparr>))))"
  by (auto simp: open_with_convenience_unlock_def bind_r_def dest!: load_envelope_eqD
      split: prod.split sum.split option.split)

text \<open>What an envelope lets a password and a device key do.\<close>

lemma open_with_password_main:
  assumes "ed_main (vt_disk st) = Whole env" and "derive_from_spec cy pw (eh_kdf (fe_header env)) = Inr wk"
    and "open_bytes cy wk (eh_password_wrap (fe_header env)) = Inr vk" and "open_state cy vk (fe_data env) = Inr v"
  shows "fst (open_with_password cy pw st) = Inr \<lparr>oh_state = v, oh_key = vk\<rparr>"
  using assms by (simp add: open_with_password_unfold read_envelope_main)

lemma open_with_password_okD:
  assumes "fst (open_with_password cy pw st) = Inr h"
  shows "\<exists>env wk. fst (read_envelope (vt_disk st)) = Inr env \<and> derive_from_spec cy pw (eh_kdf (fe_header env)) = Inr wk
    \<and> open_bytes cy wk (eh_password_wrap (fe_header env)) = Inr (oh_key h) \<and> open_state cy (oh_key h) (fe_data env) = Inr (oh_state h)"
  using assms by (auto simp: open_with_password_unfold bind_r_def split: sum.splits)

lemma derive_password_wrap_ok:
  "derive_password_wrap cy draw pw = Inr (spec, wk) \<Longrightarrow> derive_from_spec cy pw spec = Inr wk
     \<and> spec = fresh_spec cy (the draw) \<and> draw \<noteq> None"
  unfolding derive_password_wrap_def by (elim bind_r_InrE) (auto simp: random_bytes_def split: option.splits if_splits)

lemma derive_fresh:
  "crypto_ok cy \<Longrightarrow> derive_from_spec cy pw (fresh_spec cy salt) = Inr (cy_argon2 cy pw salt 3 65536 1 32)"
  by (simp add: derive_from_spec_def fresh_spec_def crypto_ok_def key_length_def)

text \<open>The envelope after a rewrap of the key under a new password, and what it opens to.\<close>

lemma rewrapped_opens:
  assumes "crypto_ok cy" and "derive_password_wrap cy r0 pw = Inr (spec, wk)" and "seal_bytes cy wk r1 vk = Inr wrap"
    and "ed_main (vt_disk st) = Whole env" and "eh_kdf (fe_header env) = spec" and "eh_password_wrap (fe_header env) = wrap"
    and "open_state cy vk (fe_data env) = Inr v"
  shows "fst (open_with_password cy pw st) = Inr \<lparr>oh_state = v, oh_key = vk\<rparr>"
  using assms derive_password_wrap_ok [OF assms(2)] open_sealed [OF assms(1,3)]
  by (intro open_with_password_main [of _ env]) auto

lemma rewrapped_refuses:
  assumes "crypto_ok cy" and "derive_password_wrap cy (Some salt) pw = Inr (spec, wk)" and "seal_bytes cy wk r1 vk = Inr wrap"
    and "ed_main (vt_disk st) = Whole env" and "eh_kdf (fe_header env) = spec" and "eh_password_wrap (fe_header env) = wrap"
    and "cy_argon2 cy other salt 3 65536 1 32 \<noteq> cy_argon2 cy pw salt 3 65536 1 32"
  shows "fst (open_with_password cy other st) = Inl InvalidPassword"
proof -
  have spec: "spec = fresh_spec cy salt" "wk = cy_argon2 cy pw salt 3 65536 1 32"
    using derive_password_wrap_ok [OF assms(2)] derive_fresh [OF assms(1), of pw salt] by auto
  have "open_bytes cy (cy_argon2 cy other salt 3 65536 1 32) wrap \<in> {Inl CipherAuth, Inl BadKeySize}"
    using open_sealed_other [OF assms(1,3)] assms(7) spec by metis
  then show ?thesis
    using assms(4-6) spec by (auto simp: open_with_password_unfold read_envelope_main derive_fresh [OF assms(1)])
qed

lemma init_opens:
  assumes "crypto_ok cy" and "init_vault cy io home stat rnd clock password st = (None, st')"
  shows "\<exists>env vk. ed_main (vt_disk st') = Whole env \<and> rnd 0 = Some vk \<and> length vk = 32 \<and> ed_main (vt_disk st) = Missing \<and>
    fst (open_with_password cy password st') = Inr \<lparr>oh_state = read_state empty_vault, oh_key = vk\<rparr> \<and>
    (\<forall>salt other. rnd 1 = Some salt \<longrightarrow> cy_argon2 cy other salt 3 65536 1 32 \<noteq> cy_argon2 cy password salt 3 65536 1 32 \<longrightarrow>
      fst (open_with_password cy other st') = Inl InvalidPassword)"
proof -
  from assms(2) obtain env where env: "new_envelope cy rnd clock password = Inr env"
    and stored: "\<exists>st1. store_envelope io env st = (None, st1) \<and> vt_disk st' = vt_disk st1"
    and fresh: "ed_main (vt_disk st) = Missing"
    by (auto simp: init_vault_def split: if_splits sum.splits prod.splits option.splits)
  from env obtain vk spec wk wrap data where
    parts: "random_bytes (nat key_length) (rnd 0) = Inr vk" "derive_password_wrap cy (rnd 1) password = Inr (spec, wk)"
      "seal_bytes cy wk (rnd 2) vk = Inr wrap" "seal_state cy vk (rnd 3) empty_vault = Inr data"
      "eh_kdf (fe_header env) = spec" "eh_password_wrap (fe_header env) = wrap" "fe_data env = data"
    unfolding new_envelope_def by (elim bind_r_InrE) (auto elim!: bind_r_InrE)
  have main: "ed_main (vt_disk st') = Whole env" using stored store_envelope_ok by auto
  have "open_state cy vk data = Inr (read_state empty_vault)"
    using parts(4) assms(1) open_sealed [OF assms(1)]
    by (auto simp: seal_state_def open_state_def crypto_ok_def split: option.splits)
  from rewrapped_opens [OF assms(1) parts(2,3) main parts(5,6)] this
  have "fst (open_with_password cy password st') = Inr \<lparr>oh_state = read_state empty_vault, oh_key = vk\<rparr>"
    by (simp add: parts(7))
  moreover have "fst (open_with_password cy other st') = Inl InvalidPassword"
    if "rnd 1 = Some salt" "cy_argon2 cy other salt 3 65536 1 32 \<noteq> cy_argon2 cy password salt 3 65536 1 32" for salt other
    using rewrapped_refuses [OF assms(1) parts(2) [unfolded that(1)] parts(3) main parts(5,6) that(2)] .
  ultimately show ?thesis
    using parts(1) fresh main by (auto simp: random_bytes_def key_length_def split: option.splits if_splits)
qed

text \<open>C32: A new vault opens with the password it was made with, to the empty state, and refuses every
  password with another derived key.\<close>

theorem init_then_open:
  assumes "crypto_ok cy" and "init_vault cy io home stat rnd clock password st = (None, st')"
    and "rnd 1 = Some salt" and "cy_argon2 cy other salt 3 65536 1 32 \<noteq> cy_argon2 cy password salt 3 65536 1 32"
  shows "(case fst (open_with_password cy password st') of Inl _ \<Rightarrow> False
      | Inr h \<Rightarrow> oh_state h = read_state empty_vault \<and> rnd 0 = Some (oh_key h))
    \<and> fst (open_with_password cy other st') = Inl InvalidPassword \<and> ed_main (vt_disk st) = Missing"
  using init_opens [OF assms(1,2)] assms(3,4) by auto

section \<open>Rekeying\<close>

text \<open>What a successful rekey has done.\<close>

lemma rekey_okE:
  assumes "rekey_password cy io rnd now old new h st = (None, st')"
  obtains env wk vk0 spec wk' wrap env' where "fst (read_envelope (vt_disk st)) = Inr env"
    "derive_from_spec cy old (eh_kdf (fe_header env)) = Inr wk" "open_bytes cy wk (eh_password_wrap (fe_header env)) = Inr vk0"
    "derive_password_wrap cy (rnd 0) new = Inr (spec, wk')" "seal_bytes cy wk' (rnd 1) (oh_key h) = Inr wrap"
    "ed_main (vt_disk st') = Whole env'" "eh_kdf (fe_header env') = spec" "eh_password_wrap (fe_header env') = wrap"
    "eh_convenience_wrap (fe_header env') = None" "fe_data env' = fe_data env" "vt_keyring st' = vt_keyring st"
    "\<And>e. ed_main (vt_disk st) = Whole e \<Longrightarrow> wi_stat io \<Longrightarrow> ed_prev (vt_disk st') = Whole e"
proof -
  obtain r st1 where load: "load_envelope st = (r, st1)" by force
  with assms obtain env where env: "r = Inr env"
    by (auto simp: rekey_password_def split: if_splits sum.splits)
  have load: "fst (read_envelope (vt_disk st)) = Inr env" "vt_disk st1 = vt_disk st" "vt_keyring st1 = vt_keyring st"
    "load_envelope st = (Inr env, st1)"
    using load_envelope_eqD [OF load] load env by simp_all
  from assms load(4) obtain wk vk0 spec wk' wrap st2 where
    parts: "derive_from_spec cy old (eh_kdf (fe_header env)) = Inr wk"
      "open_bytes cy wk (eh_password_wrap (fe_header env)) = Inr vk0"
      "derive_password_wrap cy (rnd 0) new = Inr (spec, wk')" "seal_bytes cy wk' (rnd 1) (oh_key h) = Inr wrap"
    and store: "store_envelope io (env\<lparr>fe_header := (fe_header env)\<lparr>eh_kdf := spec, eh_password_wrap := wrap,
        eh_convenience_wrap := None, eh_updated_at := now\<rparr>\<rparr>) st1 = (None, st2)"
      "vt_disk st' = vt_disk st2" "vt_keyring st' = vt_keyring st2"
    by (auto simp: rekey_password_def Let_def split: if_splits sum.splits prod.splits option.splits)
  let ?env' = "env\<lparr>fe_header := (fe_header env)\<lparr>eh_kdf := spec, eh_password_wrap := wrap,
    eh_convenience_wrap := None, eh_updated_at := now\<rparr>\<rparr>"
  have "ed_main (vt_disk st') = Whole ?env'" using store store_envelope_ok [OF store(1)] by simp
  then show thesis
    by (rule that [OF load(1) parts]) (use store store_envelope_ok [OF store(1)] load in auto)
qed

text \<open>C14: Rotating the password. The handle came from the old password; afterwards the new password gives the
  same state and vault key, the old one is refused, and the device key of convenience unlock no longer opens
  the vault file.\<close>

theorem rekey_rotates_password:
  assumes "crypto_ok cy" and "fst (open_with_password cy old st) = Inr h"
    and "rekey_password cy io rnd now old new h st = (None, st')" and "rnd 0 = Some salt"
    and "cy_argon2 cy old salt 3 65536 1 32 \<noteq> cy_argon2 cy new salt 3 65536 1 32"
  shows "fst (open_with_password cy new st') = Inr h \<and> fst (open_with_password cy old st') = Inl InvalidPassword
    \<and> fst (open_with_convenience_unlock cy readable st') = Inl KeyringUnavailable"
proof -
  obtain env wk vk0 spec wk' wrap env' where env: "fst (read_envelope (vt_disk st)) = Inr env"
    and "derive_from_spec cy old (eh_kdf (fe_header env)) = Inr wk" "open_bytes cy wk (eh_password_wrap (fe_header env)) = Inr vk0"
    and parts: "derive_password_wrap cy (rnd 0) new = Inr (spec, wk')" "seal_bytes cy wk' (rnd 1) (oh_key h) = Inr wrap"
    "ed_main (vt_disk st') = Whole env'" "eh_kdf (fe_header env') = spec" "eh_password_wrap (fe_header env') = wrap"
    and rest: "eh_convenience_wrap (fe_header env') = None" "fe_data env' = fe_data env"
    using assms(3) by (rule rekey_okE)
  have "open_state cy (oh_key h) (fe_data env') = Inr (oh_state h)"
    using open_with_password_okD [OF assms(2)] env rest(2) by auto
  from rewrapped_opens [OF assms(1) parts this]
    rewrapped_refuses [OF assms(1) parts(1) [unfolded assms(4)] parts(2-5) assms(5)]
  show ?thesis using parts(3) rest(1) by (simp add: open_with_convenience_unfold read_envelope_main)
qed

text \<open>C24: What the rotation leaves behind. The write keeps the envelope of before the rotation as the copy:
  when the main file is lost or torn, the old password and the old device key open the vault from it as
  they did before.\<close>

theorem rekey_leaves_old_secrets:
  assumes "rekey_password cy io rnd now old new h st = (None, st')" and "ed_main (vt_disk st) = Whole env" and "wi_stat io"
  shows "let lost = st'\<lparr>vt_disk := (vt_disk st')\<lparr>ed_main := m\<rparr>\<rparr> in
    (case m of Whole _ \<Rightarrow> True
     | _ \<Rightarrow> fst (open_with_password cy pw lost) = fst (open_with_password cy pw st) \<and>
           fst (open_with_convenience_unlock cy readable lost) = fst (open_with_convenience_unlock cy readable st))"
proof -
  have prev: "ed_prev (vt_disk st') = Whole env" and kept: "vt_keyring st' = vt_keyring st"
    using assms(2,3) by (rule_tac rekey_okE [OF assms(1)], blast)+
  define lost where "lost = st'\<lparr>vt_disk := (vt_disk st')\<lparr>ed_main := m\<rparr>\<rparr>"
  have same: "fst (read_envelope (vt_disk lost)) = fst (read_envelope (vt_disk st))" if "\<And>e. m \<noteq> Whole e"
    using that prev assms(2) by (cases m) (auto simp: lost_def read_envelope_def read_envelope_strict_def)
  have "vt_keyring lost = vt_keyring st" using kept by (simp add: lost_def)
  then have "fst (open_with_password cy pw lost) = fst (open_with_password cy pw st) \<and>
      fst (open_with_convenience_unlock cy readable lost) = fst (open_with_convenience_unlock cy readable st)"
    if "\<And>e. m \<noteq> Whole e"
    using same [OF that] by (simp only: open_with_password_unfold open_with_convenience_unfold)
  then show ?thesis unfolding lost_def [symmetric] Let_def by (cases m) simp_all
qed

lemma rekdf_okD:
  assumes "rekdf_with_password cy io rnd now pw h st = ((o1, n1, None), st')"
  shows "\<exists>env spec wk' wrap env'. fst (read_envelope (vt_disk st)) = Inr env \<and>
    derive_password_wrap cy (rnd 0) pw = Inr (spec, wk') \<and> seal_bytes cy wk' (rnd 1) (oh_key h) = Inr wrap \<and>
    ed_main (vt_disk st') = Whole env' \<and> eh_kdf (fe_header env') = spec \<and> eh_password_wrap (fe_header env') = wrap \<and>
    eh_convenience_wrap (fe_header env') = eh_convenience_wrap (fe_header env) \<and> fe_data env' = fe_data env \<and>
    vt_keyring st' = vt_keyring st \<and> n1 = kd_name spec"
proof -
  obtain r st1 where load: "load_envelope st = (r, st1)" by force
  with assms obtain env where env: "r = Inr env"
    by (auto simp: rekdf_with_password_def split: sum.splits)
  have load: "fst (read_envelope (vt_disk st)) = Inr env" "vt_disk st1 = vt_disk st" "vt_keyring st1 = vt_keyring st"
    "load_envelope st = (Inr env, st1)"
    using load_envelope_eqD [OF load] load env by simp_all
  from assms load(4) obtain spec wk' wrap st2 where
    parts: "derive_password_wrap cy (rnd 0) pw = Inr (spec, wk')" "seal_bytes cy wk' (rnd 1) (oh_key h) = Inr wrap"
    and store: "store_envelope io (env\<lparr>fe_header := (fe_header env)\<lparr>eh_kdf := spec, eh_password_wrap := wrap,
        eh_updated_at := now\<rparr>\<rparr>) st1 = (None, st2)"
      "vt_disk st' = vt_disk st2" "vt_keyring st' = vt_keyring st2" "n1 = kd_name spec"
    by (auto simp: rekdf_with_password_def Let_def split: if_splits sum.splits prod.splits option.splits)
  show ?thesis
    using parts store store_envelope_ok [OF store(1)] load by auto
qed

text \<open>Upgrading the key derivation keeps every access: the same password gives the same handle, the device
  key works as before, and the wrap is made with argon2id.\<close>

theorem rekdf_keeps_access:
  assumes "crypto_ok cy" and "fst (open_with_password cy pw st) = Inr h"
    and "rekdf_with_password cy io rnd now pw h st = ((from_kdf, to_kdf, None), st')"
  shows "fst (open_with_password cy pw st') = Inr h \<and> to_kdf = ''argon2id'' \<and>
    fst (open_with_convenience_unlock cy readable st') = fst (open_with_convenience_unlock cy readable st)"
proof -
  from rekdf_okD [OF assms(3)] obtain env spec wk' wrap env' where
    parts: "fst (read_envelope (vt_disk st)) = Inr env" "derive_password_wrap cy (rnd 0) pw = Inr (spec, wk')"
      "seal_bytes cy wk' (rnd 1) (oh_key h) = Inr wrap" "ed_main (vt_disk st') = Whole env'"
      "eh_kdf (fe_header env') = spec" "eh_password_wrap (fe_header env') = wrap"
      "eh_convenience_wrap (fe_header env') = eh_convenience_wrap (fe_header env)" "fe_data env' = fe_data env"
      "vt_keyring st' = vt_keyring st" "to_kdf = kd_name spec" by blast
  have "open_state cy (oh_key h) (fe_data env') = Inr (oh_state h)"
    using open_with_password_okD [OF assms(2)] parts(1,8) by auto
  from rewrapped_opens [OF assms(1) parts(2-6) this] parts derive_password_wrap_ok [OF parts(2)]
  have "fst (open_with_password cy pw st') = Inr h \<and> to_kdf = ''argon2id''" by (simp add: fresh_spec_def)
  moreover have "fst (open_with_convenience_unlock cy readable st') = fst (open_with_convenience_unlock cy readable st)"
    unfolding open_with_convenience_unfold parts(1) read_envelope_main [OF parts(4)] fst_conv bind_r_simps parts(7-9) ..
  ultimately show ?thesis by simp
qed

section \<open>Convenience unlock\<close>

lemma enable_okD:
  assumes "enable_convenience_unlock cy io settable rnd now h st = (None, st')"
  shows "\<exists>env dk wrap env'. fst (read_envelope (vt_disk st)) = Inr env \<and> random_bytes (nat key_length) (rnd 0) = Inr dk \<and>
    seal_bytes cy dk (rnd 1) (oh_key h) = Inr wrap \<and> vt_keyring st' = Some (encode_convenience_key cy dk) \<and>
    ed_main (vt_disk st') = Whole env' \<and> eh_convenience_wrap (fe_header env') = Some wrap \<and> fe_data env' = fe_data env"
proof -
  obtain r st1 where load: "load_envelope st = (r, st1)" by force
  with assms obtain env where env: "r = Inr env"
    by (auto simp: enable_convenience_unlock_def split: sum.splits)
  have load: "fst (read_envelope (vt_disk st)) = Inr env" "vt_disk st1 = vt_disk st" "vt_keyring st1 = vt_keyring st"
    "load_envelope st = (Inr env, st1)"
    using load_envelope_eqD [OF load] load env by simp_all
  from assms load(4) obtain dk wrap where
    parts: "random_bytes (nat key_length) (rnd 0) = Inr dk" "seal_bytes cy dk (rnd 1) (oh_key h) = Inr wrap"
    and store: "store_envelope io (env\<lparr>fe_header := (fe_header env)\<lparr>eh_convenience_wrap := Some wrap, eh_updated_at := now\<rparr>\<rparr>)
      (st1\<lparr>vt_keyring := Some (encode_convenience_key cy dk)\<rparr>) = (None, st')"
    by (auto simp: enable_convenience_unlock_def split: if_splits sum.splits prod.splits option.splits)
  show ?thesis
    using parts store store_envelope_ok [OF store(1)] load by auto
qed

text \<open>Convenience unlock round trip: after enabling it, the key in the keyring opens the vault to the state
  and key of the handle; after disabling it, nothing in the keyring does.\<close>

theorem convenience_round_trip:
  assumes "crypto_ok cy" and "fst (open_with_password cy pw st) = Inr h"
    and "enable_convenience_unlock cy io settable rnd now h st = (None, st1)"
    and "disable_convenience_unlock io2 res now2 st1 = ((had, None), st2)"
  shows "fst (open_with_convenience_unlock cy True st1) = Inr h \<and> had \<and>
    fst (open_with_convenience_unlock cy True (st2\<lparr>vt_keyring := kr\<rparr>)) = Inl KeyringUnavailable"
proof -
  from enable_okD [OF assms(3)] obtain env dk wrap env' where
    parts: "fst (read_envelope (vt_disk st)) = Inr env" "random_bytes (nat key_length) (rnd 0) = Inr dk"
      "seal_bytes cy dk (rnd 1) (oh_key h) = Inr wrap" "vt_keyring st1 = Some (encode_convenience_key cy dk)"
      "ed_main (vt_disk st1) = Whole env'" "eh_convenience_wrap (fe_header env') = Some wrap" "fe_data env' = fe_data env" by blast
  have "open_state cy (oh_key h) (fe_data env') = Inr (oh_state h)"
    using open_with_password_okD [OF assms(2)] parts(1,7) by auto
  moreover have "dk \<noteq> []" using parts(2) by (auto simp: random_bytes_def key_length_def split: option.splits if_splits)
  then have "decode_convenience_key cy (encode_convenience_key cy dk) = Inr dk"
    using assms(1) by (simp add: decode_convenience_key_def encode_convenience_key_def crypto_ok_def)
  ultimately have first: "fst (open_with_convenience_unlock cy True st1) = Inr h"
    using parts(4-6) open_sealed [OF assms(1) parts(3)]
    by (simp add: open_with_convenience_unfold read_envelope_main)
  from assms(4) parts(5,6) obtain env2 st3 where "had" "vt_disk st2 = vt_disk st3"
    "store_envelope io2 env2 st1 = (None, st3)" "eh_convenience_wrap (fe_header env2) = None"
    by (fastforce simp: disable_convenience_unlock_def load_envelope_main split: prod.splits option.splits keyring_delete.splits)
  with first store_envelope_ok(1) [OF this(3)] show ?thesis
    by (simp add: open_with_convenience_unfold read_envelope_main)
qed


section \<open>A sample vault\<close>

definition sample_prefix :: "string \<Rightarrow> string" where
  "sample_prefix k = replicate (length k) CHR ''1'' @ ''0'' @ k"

definition sample_crypto :: crypto where
  "sample_crypto = \<lparr>cy_b64 = (\<lambda>x. x), cy_unb64 = Some, cy_hex = (\<lambda>x. ''<'' @ x @ ''>''), cy_unhex = (\<lambda>x. Some (butlast (tl x))),
     cy_argon2 = (\<lambda>pw salt t m p n. take 32 (pw @ replicate 32 CHR ''.'')), cy_pbkdf2 = (\<lambda>pw salt i n. None),
     cy_seal = (\<lambda>k n p. sample_prefix k @ p),
     cy_open = (\<lambda>k n ct. if take (length (sample_prefix k)) ct = sample_prefix k then Some (drop (length (sample_prefix k)) ct) else None),
     cy_hmac = (\<lambda>k d. k @ d), cy_state = (\<lambda>v. if v = empty_vault then Some ''e'' else None),
     cy_unstate = (\<lambda>d. if d = ''e'' then Some empty_vault else None)\<rparr>"

lemma sample_crypto_simps:
  "cy_b64 sample_crypto x = x" "cy_unb64 sample_crypto x = Some x" "cy_hex sample_crypto x = ''<'' @ x @ ''>''"
  "cy_unhex sample_crypto x = Some (butlast (tl x))"
  "cy_argon2 sample_crypto pw salt t m p sz = take 32 (pw @ replicate 32 CHR ''.'')"
  "cy_seal sample_crypto k nn d = sample_prefix k @ d"
  "cy_open sample_crypto k nn ct = (if take (length (sample_prefix k)) ct = sample_prefix k
     then Some (drop (length (sample_prefix k)) ct) else None)"
  "cy_state sample_crypto v = (if v = empty_vault then Some ''e'' else None)"
  "cy_unstate sample_crypto d = (if d = ''e'' then Some empty_vault else None)"
  unfolding sample_crypto_def by simp_all

lemma sample_prefix_inj:
  assumes "take (length (sample_prefix k)) (sample_prefix k' @ p) = sample_prefix k"
  shows "k = k'"
proof -
  have ones: "takeWhile (\<lambda>c. c = CHR ''1'') (replicate n CHR ''1'' @ CHR ''0'' # r) = replicate n CHR ''1''" for n r
    by (induction n) auto
  from assms have eq: "sample_prefix k @ drop (length (sample_prefix k)) (sample_prefix k' @ p) = sample_prefix k' @ p"
    by (metis append_take_drop_id)
  from arg_cong [OF this, of "takeWhile (\<lambda>c. c = CHR ''1'')"]
  have "replicate (length k) CHR ''1'' = replicate (length k') CHR ''1''" by (simp add: sample_prefix_def ones)
  then have "length k = length k'" by (metis length_replicate)
  with eq show ?thesis by (simp add: sample_prefix_def)
qed

lemma trim_bracketed: "trim (CHR ''<'' # x @ ''>'') = CHR ''<'' # x @ ''>''"
proof -
  have "strip_one space_encodings (CHR ''<'' # x @ ''>'') = None"
    by (simp add: strip_one_def space_encodings_def)
  then have "trim_left (CHR ''<'' # x @ ''>'') = CHR ''<'' # x @ ''>''" by (simp add: trim_left_def strip_all_id)
  moreover have "strip_one (map rev space_encodings) (rev (CHR ''<'' # x @ ''>'')) = None"
    by (simp add: strip_one_def space_encodings_def)
  ultimately show ?thesis by (simp add: trim_def trim_right_def strip_all_id)
qed

lemma sample_crypto_ok: "crypto_ok sample_crypto"
proof -
  have "cy_open sample_crypto k n' (cy_seal sample_crypto k' n p) = None" if "k \<noteq> k'" for k k' n n' p
    using sample_prefix_inj [of k k' p] that unfolding sample_crypto_simps by auto
  moreover have "cy_open sample_crypto k n (cy_seal sample_crypto k n p) = Some p" for k n p
    unfolding sample_crypto_simps by simp
  ultimately show ?thesis
    unfolding crypto_ok_def by (auto simp: sample_crypto_simps(1-4,8,9) trim_bracketed split: if_splits)
qed

definition sample_draws :: "nat \<Rightarrow> nat \<Rightarrow> string option" where
  "sample_draws n i = (if i = 0 then Some (replicate n CHR ''k'') else if n = 32 \<and> i = 1 then Some (replicate 16 CHR ''s'')
     else Some (replicate 12 CHR ''n''))"

definition sample_blank :: vault_store where
  "sample_blank = \<lparr>vt_path = ''v'', vt_disk = \<lparr>ed_main = Missing, ed_prev = Missing, ed_tmp = Missing\<rparr>, vt_keyring = None, vt_trail = []\<rparr>"

definition sample_vault :: vault_store where
  "sample_vault = snd (init_vault sample_crypto write_ok True True (sample_draws 32) (\<lambda>_. 5) ''old'' sample_blank)"

lemma sample_aes [simp]: "aes_key_size (cy_argon2 sample_crypto pw salt t m p n)"
  by (simp add: aes_key_size_def sample_crypto_simps) linarith

lemma sample_seal [simp]:
  "aes_key_size k \<Longrightarrow> seal_bytes sample_crypto k (Some (replicate 12 c)) p
     = Inr \<lparr>bl_nonce = replicate 12 c, bl_ciphertext = sample_prefix k @ p\<rparr>"
  by (simp add: seal_bytes_def random_bytes_def nonce_size_def sample_crypto_simps)

lemma sample_unseal [simp]:
  "aes_key_size k \<Longrightarrow> open_bytes sample_crypto k \<lparr>bl_nonce = replicate 12 c, bl_ciphertext = sample_prefix k @ p\<rparr> = Inr p"
  by (simp add: open_bytes_def nonce_size_def sample_crypto_simps)

lemma sample_wrap [simp]:
  "derive_password_wrap sample_crypto (Some (replicate 16 c)) pw = Inr (fresh_spec sample_crypto (replicate 16 c),
     cy_argon2 sample_crypto pw (replicate 16 c) 3 65536 1 32)"
  by (simp add: derive_password_wrap_def random_bytes_def derive_fresh [OF sample_crypto_ok])

lemma store_write_ok:
  "ed_main (vt_disk st) \<noteq> Unreadable \<Longrightarrow> fst (store_envelope write_ok env st) = None"
  by (simp add: store_envelope_def write_envelope_file_def write_ok_def Let_def)

lemma sample_init: "init_vault sample_crypto write_ok True True (sample_draws 32) (\<lambda>_. 5) ''old'' sample_blank = (None, sample_vault)"
proof -
  have "seal_state sample_crypto (replicate 32 c) (Some (replicate 12 c')) empty_vault
      = Inr \<lparr>bl_nonce = replicate 12 c', bl_ciphertext = sample_prefix (replicate 32 c) @ ''e''\<rparr>" for c c'
    by (simp add: seal_state_def aes_key_size_def sample_crypto_simps)
  then obtain env where "new_envelope sample_crypto (sample_draws 32) (\<lambda>_. 5) ''old'' = Inr env"
    by (simp add: new_envelope_def random_bytes_def key_length_def sample_draws_def)
  moreover have "validate_master_password ''old'' = None"
    using visible_simps by (simp add: validate_master_password_def)
  ultimately have "fst (init_vault sample_crypto write_ok True True (sample_draws 32) (\<lambda>_. 5) ''old'' sample_blank) = None"
    using store_write_ok [of sample_blank env]
    by (cases "store_envelope write_ok env sample_blank") (simp add: init_vault_def sample_blank_def)
  then show ?thesis by (simp add: sample_vault_def prod_eq_iff)
qed

lemma sample_other: "cy_argon2 sample_crypto ''new'' s 3 65536 1 32 \<noteq> cy_argon2 sample_crypto ''old'' s' 3 65536 1 32"
  by (simp add: sample_crypto_simps)

theorem init_then_open_witness:
  "(case fst (open_with_password sample_crypto ''old'' sample_vault) of Inl _ \<Rightarrow> False
      | Inr h \<Rightarrow> oh_key h = replicate 32 CHR ''k'') \<and>
   fst (open_with_password sample_crypto ''new'' sample_vault) = Inl InvalidPassword"
  using init_then_open [OF sample_crypto_ok sample_init _ sample_other, of "replicate 16 CHR ''s''"]
  by (auto simp: sample_draws_def split: sum.splits)


definition sample_handle :: open_handle where
  "sample_handle = \<lparr>oh_state = read_state empty_vault, oh_key = replicate 32 CHR ''k''\<rparr>"

lemma sample_opens:
  "fst (open_with_password sample_crypto ''old'' sample_vault) = Inr sample_handle"
  "\<exists>env. ed_main (vt_disk sample_vault) = Whole env"
  using init_opens [OF sample_crypto_ok sample_init] by (auto simp: sample_draws_def sample_handle_def)

lemma rekey_succeeds:
  assumes "fst (open_with_password cy old st) = Inr h" and "ed_main (vt_disk st) = Whole e"
    and "trim old \<noteq> []" and "trim new \<noteq> []" and "derive_password_wrap cy (rnd 0) new = Inr w"
    and "seal_bytes cy (snd w) (rnd 1) (oh_key h) = Inr b"
  shows "fst (rekey_password cy write_ok rnd now old new h st) = None"
proof -
  from open_with_password_okD [OF assms(1)] assms(2) obtain wk
    where "derive_from_spec cy old (eh_kdf (fe_header e)) = Inr wk" "open_bytes cy wk (eh_password_wrap (fe_header e)) = Inr (oh_key h)"
    by (auto simp: read_envelope_main)
  moreover obtain spec wk' where "w = (spec, wk')" by (cases w)
  moreover have "\<exists>st'. store_envelope write_ok env st = (None, st')" for env
    using store_write_ok [of st env] assms(2) by (cases "store_envelope write_ok env st") auto
  then obtain st' where "store_envelope write_ok (e\<lparr>fe_header := (fe_header e)\<lparr>eh_kdf := fst w, eh_password_wrap := b,
      eh_convenience_wrap := None, eh_updated_at := now\<rparr>\<rparr>) st = (None, st')" by blast
  ultimately show ?thesis
    using assms by (simp add: rekey_password_def load_envelope_main validate_master_password_def)
qed

lemma sample_rekey: "\<exists>st'. rekey_password sample_crypto write_ok (sample_draws 16) 6 ''old'' ''new'' sample_handle sample_vault = (None, st')"
proof -
  obtain e where "ed_main (vt_disk sample_vault) = Whole e" using sample_opens(2) by blast
  moreover have "trim ''old'' \<noteq> []" "trim ''new'' \<noteq> []" by simp_all
  ultimately have "fst (rekey_password sample_crypto write_ok (sample_draws 16) 6 ''old'' ''new'' sample_handle sample_vault) = None"
    by (intro rekey_succeeds [OF sample_opens(1)]) (auto simp: sample_draws_def)
  then show ?thesis by (metis prod.collapse)
qed


theorem rekey_rotates_password_witness:
  "\<exists>st'. rekey_password sample_crypto write_ok (sample_draws 16) 6 ''old'' ''new'' sample_handle sample_vault = (None, st') \<and>
     fst (open_with_password sample_crypto ''new'' st') = Inr sample_handle \<and>
     fst (open_with_password sample_crypto ''old'' st') = Inl InvalidPassword"
proof -
  obtain st' where run: "rekey_password sample_crypto write_ok (sample_draws 16) 6 ''old'' ''new'' sample_handle sample_vault = (None, st')"
    using sample_rekey by blast
  have "sample_draws 16 0 = Some (replicate 16 CHR ''k'')" by (simp add: sample_draws_def)
  from rekey_rotates_password [OF sample_crypto_ok sample_opens(1) run this sample_other [symmetric]] run show ?thesis by blast
qed

theorem rekey_leaves_old_secrets_witness:
  "\<exists>st'. rekey_password sample_crypto write_ok (sample_draws 16) 6 ''old'' ''new'' sample_handle sample_vault = (None, st') \<and>
     fst (open_with_password sample_crypto ''old'' (st'\<lparr>vt_disk := (vt_disk st')\<lparr>ed_main := Torn\<rparr>\<rparr>)) = Inr sample_handle"
proof -
  obtain st' where run: "rekey_password sample_crypto write_ok (sample_draws 16) 6 ''old'' ''new'' sample_handle sample_vault = (None, st')"
    using sample_rekey by blast
  obtain e where main: "ed_main (vt_disk sample_vault) = Whole e" using sample_opens(2) by blast
  have "wi_stat write_ok" by (simp add: write_ok_def)
  from rekey_leaves_old_secrets [OF run main this, where m = Torn and pw = "''old''"] run sample_opens(1)
  show ?thesis by (auto simp: Let_def)
qed

lemma rekdf_succeeds:
  assumes "fst (open_with_password cy pw st) = Inr h" and "ed_main (vt_disk st) = Whole e"
    and "derive_password_wrap cy (rnd 0) pw = Inr w" and "seal_bytes cy (snd w) (rnd 1) (oh_key h) = Inr b"
  shows "\<exists>o1 n1 st'. rekdf_with_password cy write_ok rnd now pw h st = ((o1, n1, None), st')"
proof -
  from open_with_password_okD [OF assms(1)] assms(2) obtain wk
    where "derive_from_spec cy pw (eh_kdf (fe_header e)) = Inr wk" "open_bytes cy wk (eh_password_wrap (fe_header e)) = Inr (oh_key h)"
    by (auto simp: read_envelope_main)
  moreover obtain spec wk' where "w = (spec, wk')" by (cases w)
  moreover have "\<exists>st'. store_envelope write_ok env st = (None, st')" for env
    using store_write_ok [of st env] assms(2) by (cases "store_envelope write_ok env st") auto
  then obtain st' where "store_envelope write_ok (e\<lparr>fe_header := (fe_header e)\<lparr>eh_kdf := fst w, eh_password_wrap := b,
      eh_updated_at := now\<rparr>\<rparr>) st = (None, st')" by blast
  ultimately show ?thesis
    using assms by (simp add: rekdf_with_password_def load_envelope_main Let_def)
qed

theorem rekdf_keeps_access_witness:
  "\<exists>o1 n1 st'. rekdf_with_password sample_crypto write_ok (sample_draws 16) 6 ''old'' sample_handle sample_vault = ((o1, n1, None), st') \<and>
     fst (open_with_password sample_crypto ''old'' st') = Inr sample_handle \<and> n1 = ''argon2id''"
proof -
  obtain e where main: "ed_main (vt_disk sample_vault) = Whole e" using sample_opens(2) by blast
  obtain o1 n1 st' where run: "rekdf_with_password sample_crypto write_ok (sample_draws 16) 6 ''old'' sample_handle sample_vault
      = ((o1, n1, None), st')"
    using rekdf_succeeds [OF sample_opens(1) main, of "sample_draws 16" _ _ 6] by (fastforce simp: sample_draws_def)
  from rekdf_keeps_access [OF sample_crypto_ok sample_opens(1) run] run show ?thesis by blast
qed

lemma enable_succeeds:
  assumes "ed_main (vt_disk st) = Whole e" and "random_bytes (nat key_length) (rnd 0) = Inr dk"
    and "seal_bytes cy dk (rnd 1) (oh_key h) = Inr b"
  shows "\<exists>st'. enable_convenience_unlock cy write_ok True rnd now h st = (None, st')"
proof -
  have "\<exists>st'. store_envelope write_ok env (st\<lparr>vt_keyring := k\<rparr>) = (None, st')" for env k
    using store_write_ok [of "st\<lparr>vt_keyring := k\<rparr>" env] assms(1)
    by (cases "store_envelope write_ok env (st\<lparr>vt_keyring := k\<rparr>)") auto
  then obtain st' where "store_envelope write_ok (e\<lparr>fe_header := (fe_header e)\<lparr>eh_convenience_wrap := Some b, eh_updated_at := now\<rparr>\<rparr>)
      (st\<lparr>vt_keyring := Some (encode_convenience_key cy dk)\<rparr>) = (None, st')" by blast
  with assms show ?thesis by (simp add: enable_convenience_unlock_def load_envelope_main)
qed

lemma disable_succeeds:
  assumes "ed_main (vt_disk st) = Whole e" and "eh_convenience_wrap (fe_header e) = Some w"
  shows "\<exists>st'. disable_convenience_unlock write_ok Deleted now st = ((True, None), st')"
proof -
  have "\<exists>st'. store_envelope write_ok env st = (None, st')" for env
    using store_write_ok [of st env] assms(1) by (cases "store_envelope write_ok env st") auto
  then obtain st' where "store_envelope write_ok (e\<lparr>fe_header := (fe_header e)\<lparr>eh_convenience_wrap := None, eh_updated_at := now\<rparr>\<rparr>) st
      = (None, st')" by blast
  with assms show ?thesis by (simp add: disable_convenience_unlock_def load_envelope_main)
qed

theorem convenience_round_trip_witness:
  "\<exists>st1 st2. enable_convenience_unlock sample_crypto write_ok True (sample_draws 32 \<circ> (\<lambda>i. 2 * i)) 6 sample_handle sample_vault = (None, st1) \<and>
     disable_convenience_unlock write_ok Deleted 7 st1 = ((True, None), st2) \<and>
     fst (open_with_convenience_unlock sample_crypto True st1) = Inr sample_handle \<and>
     fst (open_with_convenience_unlock sample_crypto True (st2\<lparr>vt_keyring := Some ''k''\<rparr>)) = Inl KeyringUnavailable"
proof -
  obtain e where main: "ed_main (vt_disk sample_vault) = Whole e" using sample_opens(2) by blast
  have dk: "random_bytes (nat key_length) ((sample_draws 32 \<circ> (\<lambda>i. 2 * i)) 0) = Inr (replicate 32 CHR ''k'')"
    by (simp add: random_bytes_def key_length_def sample_draws_def)
  have wrap: "seal_bytes sample_crypto (replicate 32 CHR ''k'') ((sample_draws 32 \<circ> (\<lambda>i. 2 * i)) 1) (oh_key sample_handle)
      = Inr \<lparr>bl_nonce = replicate 12 CHR ''n'', bl_ciphertext = sample_prefix (replicate 32 CHR ''k'') @ oh_key sample_handle\<rparr>"
    by (simp add: sample_draws_def aes_key_size_def)
  obtain st1 where en: "enable_convenience_unlock sample_crypto write_ok True (sample_draws 32 \<circ> (\<lambda>i. 2 * i)) 6 sample_handle sample_vault = (None, st1)"
    using enable_succeeds [OF main dk wrap] by blast
  from enable_okD [OF en] obtain env' w where "ed_main (vt_disk st1) = Whole env'" "eh_convenience_wrap (fe_header env') = Some w" by blast
  then obtain st2 where dis: "disable_convenience_unlock write_ok Deleted 7 st1 = ((True, None), st2)" using disable_succeeds by blast
  from convenience_round_trip [OF sample_crypto_ok sample_opens(1) en dis, of "Some ''k''"] en dis show ?thesis by blast
qed

end
