(* ===== verification/Redactor.thy ===== *)
theory Redactor
  imports Items "HOL-Library.Sublist"
begin

text \<open>
  The output redactor of \<^verbatim>\<open>internal/redactor\<close>: the one-shot \<open>Apply\<close> (\<^verbatim>\<open>redactor.go\<close>), the
  streaming writer (\<^verbatim>\<open>streaming.go\<close>) and the escape-sequence view of a buffer (\<^verbatim>\<open>ansi.go\<close>).

  The library encoders (base64, base32, URL escapes, JSON strings, UTF-8 decoding) are the fields
  of an \<open>encoders\<close>; the encoders written in the package itself are modelled. \<open>sort.Slice\<close> is not
  stable, so the sorted order is a parameter \<open>order\<close> of which only what the proofs use is assumed.
\<close>

section \<open>Searching and replacing\<close>

text \<open>\<open>bytes.Index\<close>.\<close>

fun index_of :: "string \<Rightarrow> string \<Rightarrow> nat option" where
  "index_of n [] = (if n = [] then Some 0 else None)"
| "index_of n (c # cs) = (if prefix n (c # cs) then Some 0 else map_option Suc (index_of n cs))"

lemma index_of_SomeD: "index_of n s = Some i \<Longrightarrow> i + length n \<le> length s \<and> take (length n) (drop i s) = n"
proof (induction s arbitrary: i)
  case (Cons c cs)
  show ?case
  proof (cases "prefix n (c # cs)")
    case True
    with Cons.prems have "i = 0" by simp
    with True prefix_length_le [OF True] show ?thesis by (auto simp: prefix_def)
  next
    case False
    with Cons.prems obtain j where "index_of n cs = Some j" "i = Suc j" by auto
    with Cons.IH show ?thesis by auto
  qed
qed (auto split: if_splits)

lemma index_of_rest: "n \<noteq> [] \<Longrightarrow> index_of n s = Some i \<Longrightarrow> length s - (i + length n) < length s"
  by (drule index_of_SomeD) (cases n; auto)

function replace_loop :: "string \<Rightarrow> string \<Rightarrow> string \<Rightarrow> string" where
  "replace_loop n m src =
     (if n = [] then src
      else (case index_of n src of
          None \<Rightarrow> src
        | Some i \<Rightarrow> take i src @ m @ replace_loop n m (drop (i + length n) src)))"
  by auto
termination
  by (relation "measure (\<lambda>(n, m, src). length src)") (auto dest: index_of_rest)

declare replace_loop.simps [simp del]

definition replace_spans :: "string \<Rightarrow> string \<Rightarrow> string \<Rightarrow> string \<times> bool" where
  "replace_spans input n m = (if n = [] \<or> index_of n input = None then (input, False) else (replace_loop n m input, True))"

section \<open>Encoded forms of a value\<close>

definition hex_digit :: "nat \<Rightarrow> char" where
  "hex_digit n = ''0123456789ABCDEF'' ! n"

definition lower_hex_digit :: "nat \<Rightarrow> char" where
  "lower_hex_digit n = ''0123456789abcdef'' ! n"

definition hex2 :: "(nat \<Rightarrow> char) \<Rightarrow> char \<Rightarrow> string" where
  "hex2 digit c = [digit (of_char c div 16), digit (of_char c mod 16)]"

fun hex_nat :: "nat \<Rightarrow> string" where
  "hex_nat n = (if n < 16 then [hex_digit n] else hex_nat (n div 16) @ [hex_digit (n mod 16)])"

declare hex_nat.simps [simp del]

record encoders =
  en_b64 :: "string \<Rightarrow> string"
  en_b64url :: "string \<Rightarrow> string"
  en_raw64 :: "string \<Rightarrow> string"
  en_raw64url :: "string \<Rightarrow> string"
  en_query :: "string \<Rightarrow> string"
  en_path :: "string \<Rightarrow> string"
  en_b32 :: "string \<Rightarrow> string"
  en_json :: "string \<Rightarrow> string option"
  en_runes :: "string \<Rightarrow> nat list"

definition encode_html_entity :: "string \<Rightarrow> string" where
  "encode_html_entity v = concat (map (\<lambda>c. ''&#x'' @ hex2 hex_digit c @ '';'') v)"

definition encode_double_percent :: "string \<Rightarrow> string" where
  "encode_double_percent v = concat (map (\<lambda>c. ''%25'' @ hex2 hex_digit c) v)"

definition encode_unicode_escape :: "encoders \<Rightarrow> string \<Rightarrow> string" where
  "encode_unicode_escape en v =
     concat (map (\<lambda>r. [CHR 0x5C, CHR ''u''] @ replicate (4 - length (hex_nat r)) CHR ''0'' @ hex_nat r) (en_runes en v))"

definition encode_hex :: "string \<Rightarrow> string" where
  "encode_hex v = concat (map (hex2 lower_hex_digit) v)"

definition build_forms :: "encoders \<Rightarrow> string \<Rightarrow> (string \<times> string) list" where
  "build_forms en v = filter (\<lambda>f. fst f \<noteq> [])
     ([(v, ''[REDACTED]''), (en_b64 en v, ''[REDACTED_B64]''), (en_b64url en v, ''[REDACTED_B64U]''),
       (en_raw64 en v, ''[REDACTED_B64]''), (en_raw64url en v, ''[REDACTED_B64U]''),
       (encode_hex v, ''[REDACTED_HEX]''), (ascii_upper (encode_hex v), ''[REDACTED_HEX]''),
       (en_query en v, ''[REDACTED_URL]''), (en_path en v, ''[REDACTED_URL]''), (en_b32 en v, ''[REDACTED_B32]''),
       (encode_html_entity v, ''[REDACTED_HTML]''), (encode_double_percent v, ''[REDACTED_DPE]''),
       (encode_unicode_escape en v, ''[REDACTED_UNI]'')]
      @ (case en_json en v of Some b \<Rightarrow> if 2 \<le> length b then [(butlast (tl b), ''[REDACTED_JSON]'')] else [] | None \<Rightarrow> []))"

definition min_redact_len :: nat where
  "min_redact_len = 6"

definition needles :: "encoders \<Rightarrow> string \<Rightarrow> string list" where
  "needles en v =
     (if length v < min_redact_len then []
      else filter (\<lambda>n. n \<noteq> [])
        ([v, en_b64 en v, en_b64url en v, en_raw64 en v, en_raw64url en v, encode_hex v, ascii_upper (encode_hex v),
          en_query en v, en_path en v, en_b32 en v, encode_html_entity v, encode_double_percent v,
          encode_unicode_escape en v]
         @ (case en_json en v of Some b \<Rightarrow> if 2 \<le> length b then [butlast (tl b)] else [] | None \<Rightarrow> [])))"

section \<open>One-shot redaction\<close>

record redaction =
  rd_output :: string
  rd_redacted :: bool
  rd_suppressed :: bool
  rd_matched_items :: "string list"

record needle_form =
  nf_needle :: string
  nf_marker :: string
  nf_item_name :: string

definition redactable :: "item \<Rightarrow> bool" where
  "redactable it \<longleftrightarrow> confidential it \<and> min_redact_len \<le> length (it_value it)"

definition item_forms :: "encoders \<Rightarrow> item \<Rightarrow> needle_form list" where
  "item_forms en it = (if redactable it then map (\<lambda>(n, m). \<lparr>nf_needle = n, nf_marker = m, nf_item_name = it_name it\<rparr>)
     (build_forms en (it_value it)) else [])"

text \<open>\<open>detectPresentForms\<close> searches the input for every form in parallel when that pays; the result
  does not depend on the order of the workers. \<open>None\<close>: no form is skipped.\<close>

definition detect_present_forms :: "nat \<Rightarrow> string \<Rightarrow> nat \<Rightarrow> (needle_form \<Rightarrow> bool) option" where
  "detect_present_forms workers input n =
     (if length input < 1048576 \<or> n < 512 \<or> workers < 2 then None
      else Some (\<lambda>f. index_of (nf_needle f) input \<noteq> None))"

text \<open>One replacement of the loop: the output so far and the names of the matched items.\<close>

definition apply_form :: "needle_form \<Rightarrow> string \<times> string list \<Rightarrow> string \<times> string list" where
  "apply_form f acc =
     (case replace_spans (fst acc) (nf_needle f) (nf_marker f) of
        (out, changed) \<Rightarrow> if changed then (out, nf_item_name f # snd acc) else acc)"

definition apply_redaction :: "encoders \<Rightarrow> nat \<Rightarrow> (item list \<Rightarrow> item list) \<Rightarrow> string \<Rightarrow> item list \<Rightarrow> redaction" where
  "apply_redaction en workers order input items =
     (let forms = concat (map (item_forms en) (order items));
          live = (case detect_present_forms workers input (length forms) of None \<Rightarrow> forms | Some present \<Rightarrow> filter present forms);
          (out, names) = fold apply_form live (input, [])
      in \<lparr>rd_output = out, rd_redacted = (names \<noteq> []), rd_suppressed = False,
          rd_matched_items = sort_on id (remdups names)\<rparr>)"

section \<open>Streaming redaction\<close>

text \<open>The state of a writer; \<open>sw_out\<close> is what the destination has received.\<close>

record stream_writer =
  sw_forms :: "needle_form list"
  sw_pending :: string
  sw_lookback :: nat
  sw_matched :: "string list"
  sw_redacted :: bool
  sw_ansi :: bool
  sw_out :: string

definition new_streaming_writer :: "encoders \<Rightarrow> item list \<Rightarrow> stream_writer" where
  "new_streaming_writer en items =
     (let forms = concat (map (item_forms en) items) in
      \<lparr>sw_forms = forms, sw_pending = [], sw_lookback = foldr max (map (length \<circ> nf_needle) forms) 0 - 1,
       sw_matched = [], sw_redacted = False, sw_ansi = False, sw_out = []\<rparr>)"

definition apply_forms :: "string \<Rightarrow> stream_writer \<Rightarrow> string \<times> stream_writer" where
  "apply_forms chunk sw =
     (case fold apply_form (sw_forms sw) (chunk, []) of
        (out, names) \<Rightarrow> (out, sw\<lparr>sw_redacted := sw_redacted sw \<or> names \<noteq> [], sw_matched := names @ sw_matched sw\<rparr>))"

text \<open>A match: its span in the pending bytes, the marker and the item.\<close>

record span =
  sp_start :: nat
  sp_end :: nat
  sp_marker :: string
  sp_item :: string

function find_spans :: "needle_form \<Rightarrow> nat \<Rightarrow> string \<Rightarrow> span list" where
  "find_spans f offset src =
     (if nf_needle f = [] then []
      else (case index_of (nf_needle f) src of
          None \<Rightarrow> []
        | Some i \<Rightarrow>
            \<lparr>sp_start = offset + i, sp_end = offset + i + length (nf_needle f), sp_marker = nf_marker f, sp_item = nf_item_name f\<rparr>
            # find_spans f (offset + i + length (nf_needle f)) (drop (i + length (nf_needle f)) src)))"
  by auto
termination
  by (relation "measure (\<lambda>(f, offset, src). length src)") (auto dest: index_of_rest)

declare find_spans.simps [simp del]

text \<open>The walk of \<open>flushSafe\<close> over the matches: the offset in the redacted bytes, the cursor in the
  original ones and the safe boundary.\<close>

fun walk :: "span list \<Rightarrow> nat \<Rightarrow> nat \<Rightarrow> nat \<Rightarrow> nat \<times> nat \<times> nat" where
  "walk [] offset cursor safe = (offset, cursor, safe)"
| "walk (m # ms) offset cursor safe =
     (if sp_start m < cursor then walk ms offset cursor safe
      else if safe \<le> sp_start m then (offset, cursor, safe)
      else if sp_end m \<le> safe then walk ms (offset + (sp_start m - cursor) + length (sp_marker m)) (sp_end m) safe
      else (offset, cursor, sp_start m))"

text \<open>A write to the destination succeeds when \<open>ok\<close>; a failed one leaves the pending bytes.\<close>

definition emit :: "bool \<Rightarrow> string \<Rightarrow> stream_writer \<Rightarrow> bool \<times> stream_writer" where
  "emit ok bs sw = (if ok then (True, sw\<lparr>sw_out := sw_out sw @ bs\<rparr>) else (False, sw))"

definition flush_safe :: "(span list \<Rightarrow> span list) \<Rightarrow> bool \<Rightarrow> stream_writer \<Rightarrow> bool \<times> stream_writer" where
  "flush_safe order ok sw =
     (let pending = sw_pending sw;
          matches = order (concat (map (\<lambda>f. find_spans f 0 pending) (sw_forms sw)));
          (redacted, sw1) = apply_forms pending sw;
          (offset, cursor, safe) = walk matches 0 0 (length pending - sw_lookback sw);
          total = (if cursor < safe then offset + (safe - cursor) else offset);
          bs = take (min total (length redacted)) redacted;
          (sent, sw2) = (if bs = [] then (True, sw1) else emit ok bs sw1)
      in if sent then (True, sw2\<lparr>sw_pending := drop safe pending\<rparr>) else (False, sw2))"

section \<open>Escape sequences\<close>

definition esc :: char where
  "esc = CHR 0x1B"

text \<open>The rest of the buffer after a control sequence and after an operating-system command, given
  the bytes that follow the two introducing ones; \<open>None\<close> while the sequence is not finished.\<close>

fun scan_csi :: "string \<Rightarrow> string option" where
  "scan_csi [] = None"
| "scan_csi (c # cs) = (if 64 \<le> (of_char c :: nat) \<and> (of_char c :: nat) \<le> 126 then Some cs else scan_csi cs)"

fun scan_osc :: "string \<Rightarrow> string option" where
  "scan_osc [] = None"
| "scan_osc (c # cs) =
     (if c = CHR 0x07 then Some cs
      else if c = esc then (case cs of d # ds \<Rightarrow> if d = CHR 0x5C then Some ds else None | [] \<Rightarrow> None)
      else scan_osc cs)"

text \<open>The rest after the escape sequence, given the bytes after the escape character.\<close>

definition scan_escape :: "string \<Rightarrow> string option" where
  "scan_escape after =
     (case after of
        [] \<Rightarrow> None
      | c # cs \<Rightarrow>
          if c = CHR ''['' then scan_csi cs
          else if c = CHR '']'' then scan_osc cs
          else if 64 \<le> (of_char c :: nat) \<and> (of_char c :: nat) \<le> 95 then Some cs
          else Some after)"

lemma scan_csi_shorter: "scan_csi cs = Some r \<Longrightarrow> length r < length cs"
  by (induction cs) (auto split: if_splits)

lemma scan_osc_shorter: "scan_osc cs = Some r \<Longrightarrow> length r < length cs"
  by (induction cs) (auto split: if_splits list.splits)

lemma scan_escape_shorter: "scan_escape cs = Some r \<Longrightarrow> length r \<le> length cs"
  by (auto simp: scan_escape_def dest: scan_csi_shorter scan_osc_shorter split: list.splits if_splits)

text \<open>\<open>stripANSI\<close>: the visible bytes with their positions, and the number of trailing bytes of an
  unfinished sequence.\<close>

function strip_ansi :: "nat \<Rightarrow> string \<Rightarrow> (char \<times> nat) list \<times> nat" where
  "strip_ansi i [] = ([], 0)"
| "strip_ansi i (c # cs) =
     (if c \<noteq> esc then (case strip_ansi (Suc i) cs of (vis, left) \<Rightarrow> ((c, i) # vis, left))
      else (case scan_escape cs of
          None \<Rightarrow> ([], Suc (length cs))
        | Some rest \<Rightarrow> strip_ansi (i + (Suc (length cs) - length rest)) rest))"
  by pat_completeness auto
termination
  by (relation "measure (length \<circ> snd)") (auto dest!: scan_escape_shorter)

definition visible_spans :: "needle_form list \<Rightarrow> (char \<times> nat) list \<Rightarrow> span list" where
  "visible_spans forms vis =
     map (\<lambda>s. s\<lparr>sp_start := snd (vis ! sp_start s), sp_end := Suc (snd (vis ! (sp_end s - 1)))\<rparr>)
       (concat (map (\<lambda>f. find_spans f 0 (map fst vis)) forms))"

fun pull_back :: "span list \<Rightarrow> nat \<Rightarrow> nat" where
  "pull_back [] safe = safe"
| "pull_back (m # ms) safe =
     (if safe \<le> sp_start m then pull_back ms safe
      else if safe < sp_end m then sp_start m
      else pull_back ms safe)"

text \<open>The copying loop: spans that begin before the cursor are skipped; \<open>stop\<close> ends it at a span that
  ends after it. The second component lists the items of the spans used.\<close>

fun copy_spans :: "nat \<Rightarrow> string \<Rightarrow> span list \<Rightarrow> nat \<Rightarrow> string \<times> string list \<times> nat" where
  "copy_spans stop buf [] cursor = ([], [], cursor)"
| "copy_spans stop buf (m # ms) cursor =
     (if stop < sp_end m then ([], [], cursor)
      else if sp_start m < cursor then copy_spans stop buf ms cursor
      else (case copy_spans stop buf ms (sp_end m) of
          (out, names, end_cursor) \<Rightarrow>
            (take (sp_start m - cursor) (drop cursor buf) @ sp_marker m @ out, sp_item m # names, end_cursor)))"

definition flush_safe_ansi :: "(span list \<Rightarrow> span list) \<Rightarrow> bool \<Rightarrow> stream_writer \<Rightarrow> bool \<times> stream_writer" where
  "flush_safe_ansi order ok sw =
     (let pending = sw_pending sw;
          (vis, in_progress) = strip_ansi 0 pending
      in if length vis \<le> sw_lookback sw then (True, sw)
         else
           let matches = order (visible_spans (sw_forms sw) vis);
               boundary = min (length pending - in_progress) (snd (vis ! (length vis - sw_lookback sw)));
               safe = pull_back matches boundary
           in if safe = 0 then (True, sw)
              else
                let (out, names, cursor) = copy_spans safe pending matches 0;
                    sw1 = sw\<lparr>sw_redacted := sw_redacted sw \<or> names \<noteq> [], sw_matched := names @ sw_matched sw\<rparr>;
                    (sent, sw2) = emit ok (out @ take (safe - cursor) (drop cursor pending)) sw1
                in if sent then (True, sw2\<lparr>sw_pending := drop safe pending\<rparr>) else (False, sw2))"

definition apply_forms_ansi :: "(span list \<Rightarrow> span list) \<Rightarrow> string \<Rightarrow> stream_writer \<Rightarrow> string \<times> stream_writer" where
  "apply_forms_ansi order chunk sw =
     (let (vis, _) = strip_ansi 0 chunk;
          matches = visible_spans (sw_forms sw) vis
      in if matches = [] then (chunk, sw)
         else (case copy_spans (length chunk) chunk (order matches) 0 of
             (out, names, cursor) \<Rightarrow>
               (out @ drop cursor chunk,
                sw\<lparr>sw_redacted := sw_redacted sw \<or> names \<noteq> [], sw_matched := names @ sw_matched sw\<rparr>)))"

section \<open>Writing and flushing\<close>

text \<open>The byte count returned by \<open>Write\<close> is the length of the chunk, or none on an error.\<close>

definition stream_write :: "(span list \<Rightarrow> span list) \<Rightarrow> bool \<Rightarrow> string \<Rightarrow> stream_writer \<Rightarrow> nat option \<times> stream_writer" where
  "stream_write order ok p sw =
     (if p = [] then (Some 0, sw)
      else if sw_lookback sw = 0 then
        (case emit ok p sw of (sent, sw1) \<Rightarrow> ((if sent then Some (length p) else None), sw1))
      else
        let sw1 = sw\<lparr>sw_pending := sw_pending sw @ p\<rparr> in
        if length (sw_pending sw1) \<le> sw_lookback sw then (Some (length p), sw1)
        else (case (if sw_ansi sw then flush_safe_ansi order ok sw1 else flush_safe order ok sw1) of
            (sent, sw2) \<Rightarrow> ((if sent then Some (length p) else None), sw2)))"

definition stream_flush :: "(span list \<Rightarrow> span list) \<Rightarrow> bool \<Rightarrow> stream_writer \<Rightarrow> bool \<times> stream_writer" where
  "stream_flush order ok sw =
     (if sw_pending sw = [] then (True, sw)
      else (case (if sw_ansi sw then apply_forms_ansi order (sw_pending sw) sw else apply_forms (sw_pending sw) sw) of
          (bs, sw1) \<Rightarrow> (if bs = [] then (True, sw1\<lparr>sw_pending := []\<rparr>) else emit ok bs (sw1\<lparr>sw_pending := []\<rparr>))))"

definition stream_stats :: "stream_writer \<Rightarrow> bool \<times> string list" where
  "stream_stats sw = (sw_redacted sw, sort_on id (remdups (sw_matched sw)))"

section \<open>What the replacement does, byte by byte\<close>

lemma index_of_None: "index_of n s = None \<longleftrightarrow> (\<forall>j\<le>length s. \<not> prefix n (drop j s))"
proof (induction s)
  case (Cons c cs)
  have "(\<forall>j\<le>length (c # cs). P j) \<longleftrightarrow> P 0 \<and> (\<forall>j\<le>length cs. P (Suc j))" for P
    by (auto simp: less_Suc_eq_0_disj le_simps(2) [symmetric])
  with Cons.IH show ?case by simp
qed simp

lemma replace_loop_Nil [simp]: "replace_loop n m [] = []"
  by (simp add: replace_loop.simps [of n m])

lemma replace_loop_Cons:
  assumes "n \<noteq> []"
  shows "replace_loop n m (c # cs) =
    (if prefix n (c # cs) then m @ replace_loop n m (drop (length n) (c # cs)) else c # replace_loop n m cs)"
proof (cases "prefix n (c # cs)")
  case True
  with assms show ?thesis by (simp add: replace_loop.simps [of n m "c # cs"])
next
  case False
  with assms show ?thesis
    by (simp add: replace_loop.simps [of n m "c # cs"] replace_loop.simps [of n m cs] split: option.split)
qed

lemma replace_spans_loop: "n \<noteq> [] \<Longrightarrow> fst (replace_spans s n m) = replace_loop n m s"
  by (simp add: replace_spans_def replace_loop.simps [of n m s])

lemma index_of_append: "index_of n s = Some i \<Longrightarrow> index_of n (s @ t) = Some i"
proof (induction s arbitrary: i)
  case (Cons c cs)
  show ?case
  proof (cases "prefix n (c # cs)")
    case False
    with Cons.prems obtain j where j: "index_of n cs = Some j" "i = Suc j" by auto
    have "\<not> prefix n (c # cs @ t)"
      using False index_of_SomeD [OF j(1)] by (metis append_Cons length_Cons le_Suc_eq le_add2 le_trans prefix_length_prefix prefixI)
    with Cons.IH [OF j(1)] j show ?thesis by simp
  next
    case True
    then have "prefix n (c # cs @ t)" by (metis append_Cons prefix_prefix)
    with True Cons.prems show ?thesis by simp
  qed
qed (cases t; auto split: if_splits)

lemma replace_loop_skip:
  assumes "n \<noteq> []"
  shows "p \<le> length s \<Longrightarrow> \<forall>j<p. \<not> prefix n (drop j s) \<Longrightarrow> replace_loop n m s = take p s @ replace_loop n m (drop p s)"
proof (induction p arbitrary: s)
  case (Suc p)
  then obtain c cs where s: "s = c # cs" by (cases s) auto
  have "\<not> prefix n (c # cs)" using Suc.prems(2) s by fastforce
  moreover have "\<forall>j<p. \<not> prefix n (drop j cs)" using Suc.prems(2) s by fastforce
  ultimately show ?case using Suc s assms by (simp add: replace_loop_Cons)
qed simp

text \<open>A needle that is not in a buffer can begin in a longer one only in its last bytes.\<close>

lemma prefix_drop_append:
  assumes "index_of n s = None" and "j + length n \<le> length s"
  shows "\<not> prefix n (drop j (s @ t))"
proof
  assume "prefix n (drop j (s @ t))"
  then have "n = take (length n) (drop j (s @ t))" by (metis append_eq_conv_conj prefix_def)
  then have "n = take (length n) (drop j s)" using assms(2) by simp
  then have "prefix n (drop j s)" by (metis take_is_prefix)
  with assms show False by (simp add: index_of_None)
qed

section \<open>Streaming and one-shot replacement agree for one form\<close>

lemma walk_spans:
  assumes "nf_needle f \<noteq> []"
  shows "a + length (nf_needle f) = Suc (o1 + length src) \<Longrightarrow> o1 \<le> a \<Longrightarrow>
    walk (find_spans f o1 src) r o1 a = (r', c', a') \<Longrightarrow>
    \<exists>E. length E + r = r' + (a' - c') \<and> c' \<le> a' \<and> o1 \<le> a' \<and> a' - o1 \<le> length src \<and>
      (\<forall>Q. replace_loop (nf_needle f) (nf_marker f) (src @ Q) = E @ replace_loop (nf_needle f) (nf_marker f) (drop (a' - o1) src @ Q))"
proof (induction "length src" arbitrary: src o1 r rule: less_induct)
  case less
  let ?n = "nf_needle f" and ?m = "nf_marker f"
  show ?case
  proof (cases "index_of ?n src")
    case None
    with less.prems assms have out: "r' = r" "c' = o1" "a' = a" by (auto simp: find_spans.simps [of f])
    have "\<not> prefix ?n (drop j (src @ Q))" if "j < a - o1" for j Q
      using that less.prems(1) by (intro prefix_drop_append [OF None]) simp
    moreover have "a - o1 \<le> length src" using less.prems(1) assms by (cases ?n) auto
    ultimately have "replace_loop ?n ?m (src @ Q) = take (a - o1) (src @ Q) @ replace_loop ?n ?m (drop (a - o1) (src @ Q))" for Q
      using assms by (intro replace_loop_skip) auto
    with \<open>a - o1 \<le> length src\<close> show ?thesis using out less.prems(2) by (intro exI [of _ "take (a - o1) src"]) auto
  next
    case (Some i)
    note fit = index_of_SomeD [OF Some]
    have R: "replace_loop ?n ?m (src @ Q) = take i src @ ?m @ replace_loop ?n ?m (drop (i + length ?n) src @ Q)" for Q
      using index_of_append [OF Some, of Q] fit assms by (subst replace_loop.simps) simp
    have here: "o1 + i < a" using fit less.prems(1) by linarith
    show ?thesis
    proof (cases "o1 + i + length ?n \<le> a")
      case True
      let ?src = "drop (i + length ?n) src" and ?o = "o1 + i + length ?n"
      have w: "walk (find_spans f ?o ?src) (r + i + length ?m) ?o a = (r', c', a')"
        using less.prems(3) Some assms True here by (simp add: find_spans.simps [of f o1 src] algebra_simps)
      have short: "length ?src < length src" using index_of_rest [OF assms Some] by simp
      have "a + length ?n = Suc (?o + length ?src)" using less.prems(1) fit by simp
      from less.hyps [OF short this True w]
      obtain E where E: "length E + (r + i + length ?m) = r' + (a' - c') \<and> c' \<le> a' \<and> ?o \<le> a' \<and> a' - ?o \<le> length ?src \<and>
        (\<forall>Q. replace_loop ?n ?m (?src @ Q) = E @ replace_loop ?n ?m (drop (a' - ?o) ?src @ Q))" ..
      have rest: "drop (a' - o1) src = drop (a' - ?o) ?src" using E by (simp add: algebra_simps)
      have step: "replace_loop ?n ?m (?src @ Q) = E @ replace_loop ?n ?m (drop (a' - ?o) ?src @ Q)" for Q
        using E by blast
      have "replace_loop ?n ?m (src @ Q) = (take i src @ ?m @ E) @ replace_loop ?n ?m (drop (a' - o1) src @ Q)" for Q
        unfolding R rest step append_assoc ..
      moreover have "length (take i src @ ?m @ E) + r = r' + (a' - c') \<and> c' \<le> a' \<and> o1 \<le> a' \<and> a' - o1 \<le> length src"
        using E fit by simp linarith
      ultimately show ?thesis by blast
    next
      case False
      with less.prems(3) Some assms here have out: "r' = r" "c' = o1" "a' = o1 + i"
        by (auto simp: find_spans.simps [of f o1 src])
      have "replace_loop ?n ?m (drop i src @ Q) = ?m @ replace_loop ?n ?m (drop (i + length ?n) src @ Q)" for Q
      proof -
        have "prefix ?n (drop i src @ Q)" using fit by (metis append_take_drop_id append_assoc prefixI)
        moreover obtain c cs where "drop i src @ Q = c # cs" using calculation assms by (cases "drop i src @ Q") auto
        moreover have "drop (length ?n) (drop i src @ Q) = drop (i + length ?n) src @ Q" using fit by (simp add: add.commute)
        ultimately show ?thesis using replace_loop_Cons [OF assms] by metis
      qed
      with R out fit show ?thesis by (intro exI [of _ "take i src"]) auto
    qed
  qed
qed


text \<open>The law of the sort: some ordering of the matches by their start.\<close>

definition sorts_spans :: "(span list \<Rightarrow> span list) \<Rightarrow> bool" where
  "sorts_spans order \<longleftrightarrow> (\<forall>xs. mset (order xs) = mset xs \<and> sorted (map sp_start (order xs)))"

lemma spans_start: "s \<in> set (find_spans f o1 src) \<Longrightarrow> o1 \<le> sp_start s"
proof (induction f o1 src rule: find_spans.induct)
  case (1 f o1 src)
  show ?case
  proof (cases "nf_needle f = [] \<or> index_of (nf_needle f) src = None")
    case True
    with 1(2) show ?thesis by (auto simp: find_spans.simps [of f o1 src] split: if_splits)
  next
    case False
    then obtain i where i: "nf_needle f \<noteq> []" "index_of (nf_needle f) src = Some i" by auto
    with 1(1) [OF i] 1(2) show ?thesis by (auto simp: find_spans.simps [of f o1 src])
  qed
qed

lemma spans_ascending: "sorted_wrt (<) (map sp_start (find_spans f o1 src))"
proof (induction f o1 src rule: find_spans.induct)
  case (1 f o1 src)
  show ?case
  proof (cases "nf_needle f = [] \<or> index_of (nf_needle f) src = None")
    case True
    then show ?thesis by (auto simp: find_spans.simps [of f o1 src])
  next
    case False
    then obtain i where i: "nf_needle f \<noteq> []" "index_of (nf_needle f) src = Some i" by auto
    have "o1 + i < sp_start s" if "s \<in> set (find_spans f (o1 + i + length (nf_needle f)) (drop (i + length (nf_needle f)) src))" for s
      using spans_start [OF that] i(1) by (cases "nf_needle f") auto
    with 1 i show ?thesis by (auto simp: find_spans.simps [of f o1 src])
  qed
qed

lemma order_spans: "sorts_spans order \<Longrightarrow> order (find_spans f o1 src) = find_spans f o1 src"
proof -
  let ?xs = "find_spans f o1 src"
  assume "sorts_spans order"
  then have p: "mset (order ?xs) = mset ?xs" and ord: "sorted (map sp_start (order ?xs))" by (simp_all add: sorts_spans_def)
  have "sorted (map sp_start ?xs)" and "distinct (map sp_start ?xs)"
    using spans_ascending [of f o1 src] by (simp_all add: strict_sorted_iff)
  have "mset (map sp_start (order ?xs)) = mset (map sp_start ?xs)" unfolding mset_map p ..
  then have "sort (map sp_start ?xs) = map sp_start (order ?xs)" using ord by (rule properties_for_sort)
  moreover have "sort (map sp_start ?xs) = map sp_start ?xs"
    using \<open>sorted (map sp_start ?xs)\<close> by (rule sorted_sort_id)
  ultimately have "map sp_start (order ?xs) = map sp_start ?xs" by (rule trans [OF sym])
  moreover have "inj_on sp_start (set (order ?xs) \<union> set ?xs)"
    using \<open>distinct (map sp_start ?xs)\<close> mset_eq_setD [OF p] unfolding distinct_map by simp
  ultimately show ?thesis by (rule map_inj_on)
qed

text \<open>A writer with one form, as \<open>NewStreamingWriter\<close> makes it.\<close>

definition one_form_writer :: "needle_form \<Rightarrow> stream_writer" where
  "one_form_writer f = \<lparr>sw_forms = [f], sw_pending = [], sw_lookback = length (nf_needle f) - 1, sw_matched = [],
     sw_redacted = False, sw_ansi = False, sw_out = []\<rparr>"

definition write_chunks :: "(span list \<Rightarrow> span list) \<Rightarrow> string list \<Rightarrow> stream_writer \<Rightarrow> stream_writer" where
  "write_chunks order chunks sw = fold (\<lambda>p w. snd (stream_write order True p w)) chunks sw"

text \<open>The invariant: what is out and what is pending stand for the bytes written so far.\<close>

definition represents :: "needle_form \<Rightarrow> string \<Rightarrow> stream_writer \<Rightarrow> bool" where
  "represents f whole sw \<longleftrightarrow> sw_forms sw = [f] \<and> sw_lookback sw = length (nf_needle f) - 1 \<and> \<not> sw_ansi sw \<and>
     (\<forall>Q. replace_loop (nf_needle f) (nf_marker f) (whole @ Q)
        = sw_out sw @ replace_loop (nf_needle f) (nf_marker f) (sw_pending sw @ Q))"

lemma apply_forms_one:
  assumes "sw_forms sw = [f]" and "nf_needle f \<noteq> []" and "apply_forms chunk sw = (out, sw1)"
  shows "out = replace_loop (nf_needle f) (nf_marker f) chunk \<and> sw_out sw1 = sw_out sw \<and> sw_forms sw1 = sw_forms sw
    \<and> sw_lookback sw1 = sw_lookback sw \<and> sw_ansi sw1 = sw_ansi sw"
proof -
  have "fst (apply_form f (chunk, [])) = replace_loop (nf_needle f) (nf_marker f) chunk"
    using replace_spans_loop [OF assms(2), of chunk "nf_marker f"]
    by (auto simp: apply_form_def replace_spans_def split: if_splits)
  with assms show ?thesis by (auto simp: apply_forms_def split: prod.splits)
qed

lemma flush_safe_represents:
  assumes "represents f whole sw" and "sorts_spans order" and "nf_needle f \<noteq> []" and "sw_lookback sw < length (sw_pending sw)"
  shows "represents f whole (snd (flush_safe order True sw))"
proof -
  let ?n = "nf_needle f" and ?m = "nf_marker f" and ?P = "sw_pending sw"
  have sw: "sw_forms sw = [f]" "sw_lookback sw = length ?n - 1"
    and rep: "\<And>Q. replace_loop ?n ?m (whole @ Q) = sw_out sw @ replace_loop ?n ?m (?P @ Q)"
    using assms(1) by (auto simp: represents_def)
  obtain out sw1 where ap: "apply_forms ?P sw = (out, sw1)" by force
  note one = apply_forms_one [OF sw(1) assms(3) ap]
  obtain r' c' a' where w: "walk (find_spans f 0 ?P) 0 0 (length ?P - sw_lookback sw) = (r', c', a')" by (metis prod_cases3)
  have "length ?P - sw_lookback sw + length ?n = Suc (0 + length ?P)"
    using assms(3,4) sw(2) by (cases ?n) auto
  from walk_spans [OF assms(3) this _ w] obtain E
    where E: "length E = r' + (a' - c')" "\<And>Q. replace_loop ?n ?m (?P @ Q) = E @ replace_loop ?n ?m (drop a' ?P @ Q)"
      "c' \<le> a'" by auto
  have total: "(if c' < a' then r' + (a' - c') else r') = length E" using E(1,3) by auto
  have "take (min (length E) (length out)) out = E" using one E(2) [of "[]"] by simp
  then have "flush_safe order True sw = (True, sw1\<lparr>sw_out := sw_out sw1 @ E, sw_pending := drop a' ?P\<rparr>)"
    by (auto simp: flush_safe_def sw(1) order_spans [OF assms(2)] ap w total emit_def Let_def)
  then show ?thesis
    using one rep E(2) assms(1) by (auto simp: represents_def)
qed

lemma stream_write_represents:
  assumes "represents f whole sw" and "sorts_spans order" and "2 \<le> length (nf_needle f)"
  shows "represents f (whole @ p) (snd (stream_write order True p sw))"
proof -
  let ?sw = "sw\<lparr>sw_pending := sw_pending sw @ p\<rparr>"
  have "represents f (whole @ p) ?sw" using assms(1) by (simp add: represents_def)
  moreover from this have "represents f (whole @ p) (snd (flush_safe order True ?sw))" if "sw_lookback ?sw < length (sw_pending ?sw)"
    using flush_safe_represents assms(2,3) that by fastforce
  ultimately show ?thesis
    using assms(1,3) by (auto simp: stream_write_def represents_def Let_def split: prod.split)
qed

lemma write_chunks_represents:
  "represents f whole sw \<Longrightarrow> sorts_spans order \<Longrightarrow> 2 \<le> length (nf_needle f) \<Longrightarrow>
     represents f (whole @ concat chunks) (write_chunks order chunks sw)"
proof (induction chunks arbitrary: whole sw)
  case (Cons p chunks)
  from Cons.IH [OF stream_write_represents [OF Cons.prems, of p] Cons.prems(2,3)] show ?case
    by (simp add: write_chunks_def)
qed (simp add: write_chunks_def)

text \<open>C12: Streaming is one-shot replacement. However the output is cut into writes, and however the matches
  are sorted, a writer with one encoded form delivers after the final flush exactly what replacing that form
  in the whole output gives.\<close>

theorem streaming_equals_replacement:
  assumes "sorts_spans order" and "2 \<le> length (nf_needle f)"
  shows "sw_out (snd (stream_flush order True (write_chunks order chunks (one_form_writer f))))
    = fst (replace_spans (concat chunks) (nf_needle f) (nf_marker f))"
proof -
  let ?sw = "write_chunks order chunks (one_form_writer f)"
  have ne: "nf_needle f \<noteq> []" using assms(2) by auto
  have "represents f ([] @ concat chunks) ?sw"
    using assms by (intro write_chunks_represents) (simp_all add: represents_def one_form_writer_def)
  then have rep: "sw_forms ?sw = [f]" "\<not> sw_ansi ?sw"
    "replace_loop (nf_needle f) (nf_marker f) (concat chunks) = sw_out ?sw @ replace_loop (nf_needle f) (nf_marker f) (sw_pending ?sw)"
    unfolding represents_def by (simp_all, metis append_Nil2)
  obtain out sw1 where ap: "apply_forms (sw_pending ?sw) ?sw = (out, sw1)" by force
  from apply_forms_one [OF rep(1) ne ap] rep show ?thesis
    by (auto simp: stream_flush_def ap emit_def replace_spans_loop [OF ne])
qed


lemma streaming_equals_replacement_witness:
  "sw_out (snd (stream_flush (sort_key sp_start) True (write_chunks (sort_key sp_start) [''pass: hun'', ''ter2'', ''!'']
      (one_form_writer \<lparr>nf_needle = ''hunter2'', nf_marker = ''[REDACTED]'', nf_item_name = ''DB''\<rparr>)))) = ''pass: [REDACTED]!''"
proof -
  let ?f = "\<lparr>nf_needle = ''hunter2'', nf_marker = ''[REDACTED]'', nf_item_name = ''DB''\<rparr>"
  have "sorts_spans (sort_key sp_start)" by (simp add: sorts_spans_def)
  from streaming_equals_replacement [OF this, of ?f "[''pass: hun'', ''ter2'', ''!'']"]
  show ?thesis by (simp add: replace_spans_def replace_loop.simps)
qed

section \<open>No form of a secret survives the redaction\<close>

definition redaction_markers :: "string list" where
  "redaction_markers = [''[REDACTED]'', ''[REDACTED_B64]'', ''[REDACTED_B64U]'', ''[REDACTED_HEX]'', ''[REDACTED_URL]'',
     ''[REDACTED_B32]'', ''[REDACTED_HTML]'', ''[REDACTED_DPE]'', ''[REDACTED_UNI]'', ''[REDACTED_JSON]'']"

lemma map_fst_filter: "map fst (filter (\<lambda>f. fst f \<noteq> []) xs) = filter (\<lambda>n. n \<noteq> []) (map fst xs)"
  by (induction xs) auto

lemma list_all_filter: "list_all P xs \<Longrightarrow> list_all P (filter Q xs)"
  by (induction xs) auto

lemma needles_forms: "min_redact_len \<le> length v \<Longrightarrow> needles en v = map fst (build_forms en v)"
  unfolding needles_def build_forms_def map_fst_filter
  by (cases "en_json en v") (simp_all only: map_append list.map fst_conv option.case if_distrib [of "map fst"] not_less [symmetric] if_False)

lemma build_forms_markers: "list_all (\<lambda>f. snd f \<in> set redaction_markers) (build_forms en v)"
proof -
  have "list_all (\<lambda>f. snd f \<in> set redaction_markers)
    (case en_json en v of Some b \<Rightarrow> if 2 \<le> length b then [(butlast (tl b), ''[REDACTED_JSON]'')] else [] | None \<Rightarrow> [])"
    by (simp only: redaction_markers_def list.set insert_iff simp_thms list.pred_inject snd_conv split: option.split if_splits)
  then show ?thesis unfolding build_forms_def
    by (intro list_all_filter) (simp only: list_all_append list.pred_inject snd_conv redaction_markers_def list.set insert_iff simp_thms)
qed

lemma form_markers: "f \<in> set (item_forms en it) \<Longrightarrow> nf_marker f \<in> set redaction_markers \<and> nf_needle f \<noteq> []"
proof -
  assume "f \<in> set (item_forms en it)"
  then obtain n m where f: "(n, m) \<in> set (build_forms en (it_value it))" "nf_needle f = n" "nf_marker f = m"
    by (auto simp: item_forms_def split: if_splits)
  from f(1) have "n \<noteq> []" unfolding build_forms_def set_filter by fastforce
  with f build_forms_markers [of en "it_value it"] show ?thesis by (fastforce simp: list_all_iff)
qed

lemma marker_brackets: "m \<in> set redaction_markers \<Longrightarrow> \<exists>b. m = CHR ''['' # b @ [CHR '']'']"
  unfolding redaction_markers_def by auto

lemma prefix_replaced:
  "CHR ''['' \<notin> set n \<Longrightarrow> k \<noteq> [] \<Longrightarrow> prefix n (replace_loop k (CHR ''['' # b) s) \<Longrightarrow> prefix n s"
proof (induction s arbitrary: n)
  case (Cons c cs)
  then show ?case by (cases n) (auto simp: replace_loop_Cons split: if_splits)
qed simp

lemma sublist_bracket:
  assumes "sublist n (b @ [d] @ r)" and "d \<notin> set n"
  shows "sublist n b \<or> sublist n r"
  using assms
proof (induction b)
  case Nil
  then show ?case by (cases n) (auto simp: sublist_Cons_right)
next
  case (Cons x b)
  show ?case
  proof (cases "prefix n (x # b @ [d] @ r)")
    case True
    then have "prefix n (x # b) \<or> prefix ((x # b) @ [d]) n"
      by (metis append_Cons append_assoc prefixI prefix_same_cases prefix_snoc)
    with Cons.prems(2) have "prefix n (x # b)" by (auto simp: prefix_def)
    then show ?thesis by blast
  next
    case False
    with Cons show ?thesis by (auto simp: sublist_Cons_right)
  qed
qed

lemma replaced_stays_clean:
  assumes "CHR ''['' \<notin> set n" and "CHR '']'' \<notin> set n" and "k \<noteq> []" and "n \<noteq> []"
    and "\<not> sublist n (CHR ''['' # b @ [CHR '']''])" and "k = n \<or> \<not> sublist n s"
  shows "\<not> sublist n (replace_loop k (CHR ''['' # b @ [CHR '']'']) s)"
  using assms(6)
proof (induction s rule: length_induct)
  case (1 s)
  let ?m = "CHR ''['' # b @ [CHR '']'']"
  show ?case
  proof (cases s)
    case Nil
    with assms(4) show ?thesis by (cases n) auto
  next
    case (Cons c cs)
    show ?thesis
    proof (cases "prefix k s")
      case True
      let ?rest = "drop (length k) s"
      have "length ?rest < length s" using Cons assms(3) by (cases k) auto
      moreover have "k = n \<or> \<not> sublist n ?rest" using 1(2) by (meson sublist_drop sublist_order.order_trans)
      ultimately have "\<not> sublist n (replace_loop k ?m ?rest)" using 1(1) by blast
      moreover have "sublist (CHR ''['' # b) ?m" by (simp add: prefix_imp_sublist)
      ultimately have "\<not> sublist n ((CHR ''['' # b) @ [CHR '']''] @ replace_loop k ?m ?rest)"
        using sublist_bracket [OF _ assms(2)] assms(5) sublist_order.order_trans by metis
      with True Cons assms(3) show ?thesis by (simp add: replace_loop_Cons)
    next
      case False
      have "k = n \<or> \<not> sublist n cs" using 1(2) sublist_Cons_right [of n c cs] unfolding Cons by blast
      moreover have "\<not> prefix n (c # cs)" using 1(2) False sublist_Cons_right [of n c cs] unfolding Cons by blast
      moreover have "\<not> sublist n (replace_loop k ?m cs)"
        using 1(1) \<open>k = n \<or> \<not> sublist n cs\<close> unfolding Cons by auto
      moreover have "\<not> prefix n (c # replace_loop k ?m cs)"
      proof
        assume "prefix n (c # replace_loop k ?m cs)"
        with assms(4) obtain n' where n: "n = c # n'" "prefix n' (replace_loop k ?m cs)" by (cases n) auto
        have "CHR ''['' \<notin> set n'" using assms(1) n(1) by simp
        from prefix_replaced [OF this assms(3) n(2)] n(1) show False using \<open>\<not> prefix n (c # cs)\<close> by simp
      qed
      ultimately show ?thesis using False Cons assms(3) by (simp add: replace_loop_Cons sublist_Cons_right)
    qed
  qed
qed


lemma index_of_sublist: "sublist n s \<Longrightarrow> index_of n s \<noteq> None"
proof -
  assume "sublist n s"
  then obtain ps ss where s: "s = ps @ n @ ss" by (auto simp: sublist_def)
  have "prefix n (drop (length ps) s)" and "length ps \<le> length s" unfolding s by simp_all
  then show ?thesis unfolding index_of_None by blast
qed

lemma fold_apply_form:
  "\<forall>f\<in>set fs. nf_needle f \<noteq> [] \<Longrightarrow>
     fst (fold apply_form fs (s, ns)) = fold (\<lambda>f. replace_loop (nf_needle f) (nf_marker f)) fs s"
proof (induction fs arbitrary: s ns)
  case (Cons f fs)
  then have ne: "nf_needle f \<noteq> []" by simp
  obtain s' ns' where a: "apply_form f (s, ns) = (s', ns')" by force
  have "s' = replace_loop (nf_needle f) (nf_marker f) s"
    using a replace_spans_loop [OF ne, of s "nf_marker f"]
    by (auto simp: apply_form_def replace_spans_def split: if_splits prod.splits)
  with Cons a show ?case by simp
qed simp

lemma fold_stays_clean:
  assumes "CHR ''['' \<notin> set n" and "CHR '']'' \<notin> set n" and "n \<noteq> []" and "\<forall>m\<in>set redaction_markers. \<not> sublist n m"
  shows "\<forall>f\<in>set fs. nf_marker f \<in> set redaction_markers \<and> nf_needle f \<noteq> [] \<Longrightarrow> n \<in> nf_needle ` set fs \<or> \<not> sublist n s \<Longrightarrow>
    \<not> sublist n (fold (\<lambda>f. replace_loop (nf_needle f) (nf_marker f)) fs s)"
proof (induction fs arbitrary: s)
  case (Cons f fs)
  have mark: "nf_marker f \<in> set redaction_markers" and ne: "nf_needle f \<noteq> []" using Cons.prems(1) by auto
  obtain b where b: "nf_marker f = CHR ''['' # b @ [CHR '']'']" using marker_brackets [OF mark] by blast
  have m: "\<not> sublist n (CHR ''['' # b @ [CHR '']''])" using assms(4) mark b by metis
  have "n \<in> nf_needle ` set fs \<or> \<not> sublist n (replace_loop (nf_needle f) (nf_marker f) s)"
    using Cons.prems(2) replaced_stays_clean [OF assms(1,2) ne assms(3) m, of s] unfolding b by auto
  with Cons show ?case by simp
qed simp



text \<open>A concrete package environment and two secrets, one the beginning of the other.\<close>

definition sample_encoders :: encoders where
  "sample_encoders = \<lparr>en_b64 = \<lambda>_. [], en_b64url = \<lambda>_. [], en_raw64 = \<lambda>_. [], en_raw64url = \<lambda>_. [], en_query = id,
     en_path = id, en_b32 = \<lambda>_. [], en_json = \<lambda>_. None, en_runes = map of_char\<rparr>"

definition sample_secret :: "string \<Rightarrow> string \<Rightarrow> item" where
  "sample_secret name value = \<lparr>it_classification = ''confidential'', it_id = name, it_name = name, it_kind = ''kv'',
     it_value = value, it_metadata = \<lparr>im_notes = [], im_tags = [], im_project_bindings = [], im_human_label = [], im_policy = []\<rparr>,
     it_created_at = 0, it_updated_at = 0, it_deleted_at = None\<rparr>"

definition sample_items :: "item list" where
  "sample_items = [sample_secret ''A'' ''hunter2'', sample_secret ''B'' ''hunter2-x9'']"


lemma apply_redaction_small: "length input < 1048576 \<Longrightarrow>
    rd_output (apply_redaction en workers order input items) = fst (fold apply_form (concat (map (item_forms en) (order items))) (input, []))"
  by (simp add: apply_redaction_def detect_present_forms_def Let_def case_prod_unfold)

text \<open>The streaming writer does not have the order of \<open>Apply\<close>. \<open>Apply\<close> sorts the items by the length of
  their values so that a secret that begins another one does not hide it; \<open>NewStreamingWriter\<close> keeps the
  order it is given, and with the shorter value first the rest of the longer secret is written out.\<close>

theorem streaming_leaks_longer_secret:
  "rd_output (apply_redaction sample_encoders 1 (\<lambda>xs. rev (sort_key (\<lambda>it. length (it_value it)) xs)) ''key=hunter2-x9'' sample_items)
     = ''key=[REDACTED]''
   \<and> sw_out (snd (stream_flush (sort_key sp_start) True (snd (stream_write (sort_key sp_start) True ''key=hunter2-x9''
       (new_streaming_writer sample_encoders sample_items))))) = ''key=[REDACTED]-x9''"
  (is "?one \<and> ?stream")
proof
  have "length ''key=hunter2-x9'' < 1048576" by simp
  show ?one unfolding apply_redaction_small [OF \<open>length ''key=hunter2-x9'' < 1048576\<close>] by code_simp
  show ?stream by code_simp
qed

lemma find_spans_Nil [simp]: "find_spans f 0 [] = []"
  by (simp add: find_spans.simps)

lemma scan_osc_text: "CHR 0x07 \<notin> set t \<Longrightarrow> esc \<notin> set t \<Longrightarrow> scan_osc (t @ CHR 0x07 # r) = Some r"
  by (induction t) auto

text \<open>C36: The terminal mode does not look inside operating-system commands. Whatever the items are, a text
  between the introducer of such a command and its terminator, a window title for example, goes through
  the writer unchanged, even when it is the raw value of a secret.\<close>

theorem osc_text_not_redacted:
  assumes "CHR 0x07 \<notin> set t" and "esc \<notin> set t"
    and "sw = (new_streaming_writer en items)\<lparr>sw_ansi := True\<rparr>"
  shows "sw_out (snd (stream_flush order True (snd (stream_write order True ([esc, CHR '']''] @ t @ [CHR 0x07]) sw))))
    = [esc, CHR '']''] @ t @ [CHR 0x07]"
proof -
  let ?p = "[esc, CHR '']''] @ t @ [CHR 0x07]"
  have vis: "strip_ansi 0 ?p = ([], 0)"
    using scan_osc_text [OF assms(1,2), of "[]"] by (simp add: scan_escape_def)
  show ?thesis
    using assms(3) by (simp add: stream_write_def stream_flush_def new_streaming_writer_def Let_def emit_def flush_safe_ansi_def
        apply_forms_ansi_def visible_spans_def vis [simplified])
qed

lemma osc_text_not_redacted_witness:
  "sw_out (snd (stream_flush (sort_key sp_start) True (snd (stream_write (sort_key sp_start) True
      ([esc, CHR '']''] @ ''0;hunter2'' @ [CHR 0x07]) ((new_streaming_writer sample_encoders sample_items)\<lparr>sw_ansi := True\<rparr>)))))
    = [esc, CHR '']''] @ ''0;hunter2'' @ [CHR 0x07]"
  by (rule osc_text_not_redacted [OF _ _ refl]) (simp_all add: esc_def)

end
