(* ===== verification/Broker.thy ===== *)
theory Broker
  imports Grants Items
begin

text \<open>
  The authorisation loops of \<^verbatim>\<open>internal/brokerops\<close>: a batch of references (\<^verbatim>\<open>authorize_execution.go\<close>),
  one reference, one item and a capture (\<^verbatim>\<open>ops.go\<close>), and the error they answer with
  (\<^verbatim>\<open>authorization_error.go\<close>). Each pass of a loop has a \<open>round\<close>: what the file system does
  during its two store operations, their clock readings and the random id of a grant.
\<close>

section \<open>Requests and rounds\<close>

record reference_access =
  ra_reference :: string
  ra_operation :: string

record round =
  rn_io :: io
  rn_clock :: "nat \<Rightarrow> nat \<Rightarrow> time"
  rn_now :: "nat \<Rightarrow> time"
  rn_grant_io :: io
  rn_grant_clock :: "nat \<Rightarrow> time"
  rn_random :: "string option"

text \<open>The scopes the caller passes; the empty scope grants nothing.\<close>

record approval =
  av_project :: string
  av_secret :: string
  av_convenience :: string
  av_window :: duration

record authorization_error =
  ze_reason :: string
  ze_requirement :: string
  ze_operation :: string
  ze_item_name :: string
  ze_once_consumed :: bool
  ze_requires_prompt :: bool

datatype broker_error =
    StoreFailed store_error
  | ExposeHint store_error
  | NeedsKv string
  | Denied authorization_error
  | AccessDenied string

definition new_authorization_error ::
    "(string \<Rightarrow> string) \<Rightarrow> access_request \<Rightarrow> access_decision \<Rightarrow> vault \<Rightarrow> authorization_error" where
  "new_authorization_error sha req d v =
     \<lparr>ze_reason = ad_reason d, ze_requirement = required_action d, ze_operation = ar_operation req,
      ze_item_name = ar_item_name req, ze_once_consumed = once_grant_consumed sha req (required_action d) v,
      ze_requires_prompt = ad_requires_prompt d\<rparr>"

definition error_label :: "authorization_error \<Rightarrow> string" where
  "error_label e =
     (if ze_requirement e \<in> {''project_lease'', ''project_and_convenience''} then ''project lease required''
      else if ze_requirement e = ''secret_grant'' then ''secret approval required''
      else if ze_requirement e = ''convenience'' then ''convenience approval required''
      else if ze_requirement e = ''write_grant'' then ''capture write grant required''
      else if ze_requirement e = ''unsupported'' then ''unsupported approval path''
      else if ze_requires_prompt e then ''unsupported approval path''
      else ''access denied'')"

text \<open>\<open>quote\<close> is the \<open>%q\<close> verb.\<close>

definition error_message :: "(string \<Rightarrow> string) \<Rightarrow> authorization_error \<Rightarrow> string" where
  "error_message quote e =
     error_label e @ '' for '' @ ze_operation e @ '': '' @ ze_reason e
     @ (if ze_item_name e \<noteq> [] then '' (item '' @ quote (ze_item_name e) @ '')'' else [])
     @ (if ze_once_consumed e then ''; the matching once grant was already consumed'' else [])"

definition grant_field :: "authorization_error \<Rightarrow> string" where
  "grant_field e =
     (if ze_requirement e \<in> {''project_lease'', ''project_and_convenience''} then ''grant_project''
      else if ze_requirement e = ''secret_grant'' then ''grant_secret''
      else if ze_requirement e = ''convenience'' then ''grant_convenience''
      else if ze_requirement e = ''write_grant'' then ''grant_write''
      else [])"

definition cli_hint :: "authorization_error \<Rightarrow> string" where
  "cli_hint e =
     (let field = grant_field e; flag = ''--'' @ map (\<lambda>c. if c = CHR ''_'' then CHR ''-'' else c) field in
      if field = [] then ''inspect the operation and item policy with `hasp secret show <NAME>`''
      else if field = ''grant_write'' then ''retry the same command with '' @ flag @ '' after approving creation of the item''
      else if ze_once_consumed e \<and> field = ''grant_convenience'' then
        ''the once approval for this destination and reference set was used; if another workspace write is approved, retry with --grant-convenience window --grant-window 15m''
      else if ze_once_consumed e then
        ''for a new once approval, start a fresh agent session (or omit --session-token for a standalone CLI call), then retry with ''
        @ flag @ '' once; a consumed once grant cannot be reissued in the same session''
      else ''retry the same command with '' @ flag @ '' once after approving this operation'')"

definition mcp_hint :: "authorization_error \<Rightarrow> string" where
  "mcp_hint e =
     (let field = grant_field e in
      if field = [] \<or> field = ''grant_convenience'' then ''inspect the operation and its policy through the CLI''
      else if field = ''grant_write'' then ''retry with grant_write=true after approving creation of the item''
      else if ze_once_consumed e then
        ''start a fresh agent MCP session and retry with '' @ field @ ''=once for a new one-use approval; reconnecting does not replay the command''
      else ''retry the same tool call with '' @ field @ ''=once after approving this operation; session or window scopes require an explicit broader approval'')"

section \<open>A batch of references\<close>

definition reference_item :: "project \<Rightarrow> string \<Rightarrow> vault \<Rightarrow> broker_error + item" where
  "reference_item p reference v =
     (case resolve_reference p reference v of
        Inl e \<Rightarrow> Inl (StoreFailed e)
      | Inr r \<Rightarrow> (case get_item (rr_item_name r) v of None \<Rightarrow> Inl (StoreFailed ItemNotFound) | Some it \<Rightarrow> Inr it))"

definition batch_request :: "string \<Rightarrow> string \<Rightarrow> reference_access \<Rightarrow> item \<Rightarrow> access_request" where
  "batch_request b t ref it =
     \<lparr>ar_operation = ra_operation ref, ar_binding_id = b, ar_session_token = t, ar_item_name = it_name it,
      ar_policy = im_policy (it_metadata it), ar_destination_path = [], ar_aliases = [ra_reference ref], ar_creating_new = False\<rparr>"

definition prepare_reference ::
    "string \<Rightarrow> string \<Rightarrow> vault \<Rightarrow> reference_access \<times> project \<Rightarrow> broker_error + item \<times> access_request" where
  "prepare_reference b t v rp =
     (case reference_item (snd rp) (ra_reference (fst rp)) v of
        Inl e \<Rightarrow> Inl (if e = StoreFailed ReferenceNotFound then ExposeHint ReferenceNotFound else e)
      | Inr it \<Rightarrow>
          if ra_operation (fst rp) = ''run'' \<and> it_kind it = ''file'' then Inl (NeedsKv (it_name it))
          else Inr (it, batch_request b t (fst rp) it))"

fun prepare_references ::
    "string \<Rightarrow> string \<Rightarrow> vault \<Rightarrow> (reference_access \<times> project) list \<Rightarrow> broker_error + (item \<times> access_request) list" where
  "prepare_references b t v [] = Inr []"
| "prepare_references b t v (rp # rps) =
     bind_r (prepare_reference b t v rp) (\<lambda>x. bind_r (prepare_references b t v rps) (\<lambda>xs. Inr (x # xs)))"

definition list_request :: "string \<Rightarrow> string \<Rightarrow> access_request" where
  "list_request b t = \<lparr>ar_operation = ''list'', ar_binding_id = b, ar_session_token = t, ar_item_name = [], ar_policy = [],
     ar_destination_path = [], ar_aliases = [], ar_creating_new = False\<rparr>"

definition timed :: "round \<Rightarrow> access_request list \<Rightarrow> timed_request list" where
  "timed rd reqs = map (\<lambda>(i, req). (req, rn_clock rd i, rn_now rd i)) (enumerate 0 reqs)"

text \<open>The key of the set of requirements already met once in this call.\<close>

definition requirement_key :: "access_decision \<Rightarrow> access_request \<Rightarrow> string" where
  "requirement_key d req = (if required_action d = ''secret_grant'' then ''secret_grant:'' @ ar_item_name req else required_action d)"

definition secret_relaxed :: "access_request \<Rightarrow> string \<Rightarrow> bool" where
  "secret_relaxed req scope = (ar_policy req = ''access'' \<and> scope = ''window'')"

text \<open>The first refused request of the batch.\<close>

definition first_refused :: "access_decision list \<Rightarrow> access_request list \<Rightarrow> (access_decision \<times> access_request) option" where
  "first_refused ds reqs = find (\<lambda>(d, _). \<not> ad_allowed d) (zip ds reqs)"

definition batch_keys :: "access_request list \<Rightarrow> string set" where
  "batch_keys reqs = insert ''project_lease'' ((\<lambda>r. ''secret_grant:'' @ ar_item_name r) ` set reqs)"

lemma first_refused_SomeD: "first_refused ds reqs = Some (d, req) \<Longrightarrow> req \<in> set reqs \<and> d \<in> set ds \<and> \<not> ad_allowed d"
proof -
  assume "first_refused ds reqs = Some (d, req)"
  from find_SomeD [OF this [unfolded first_refused_def]] have zip: "(d, req) \<in> set (zip ds reqs)" and no: "\<not> ad_allowed d" by auto
  from set_zip_rightD [OF zip] set_zip_leftD [OF zip] no show ?thesis by (intro conjI)
qed

lemma first_refused_nth:
  "first_refused ds reqs = Some (d, req) \<Longrightarrow> \<exists>j. j < length ds \<and> j < length reqs \<and> d = ds ! j \<and> req = reqs ! j"
proof -
  assume "first_refused ds reqs = Some (d, req)"
  from find_SomeD [OF this [unfolded first_refused_def]] have "(d, req) \<in> set (zip ds reqs)" by simp
  then show ?thesis unfolding in_set_zip by auto
qed

lemma batch_keys_shrink:
  assumes "first_refused ds reqs = Some (d, req)" and "required_action d \<in> {''project_lease'', ''secret_grant''}"
    and "requirement_key d req \<notin> set granted"
  shows "card (batch_keys reqs - set (requirement_key d req # granted)) < card (batch_keys reqs - set granted)"
proof -
  have "requirement_key d req \<in> batch_keys reqs"
    using first_refused_SomeD [OF assms(1)] assms(2) unfolding requirement_key_def batch_keys_def by (auto split: if_split)
  then have "batch_keys reqs - set (requirement_key d req # granted) \<subset> batch_keys reqs - set granted" using assms(3) by auto
  moreover have "finite (batch_keys reqs - set granted)" by (simp add: batch_keys_def)
  ultimately show ?thesis by (rule psubset_card_mono [rotated])
qed

function (sequential) authorize_loop ::
    "(string \<Rightarrow> string) \<Rightarrow> (nat \<Rightarrow> round) \<Rightarrow> nat \<Rightarrow> string \<Rightarrow> string \<Rightarrow> approval \<Rightarrow> access_request list \<Rightarrow> string list \<Rightarrow> sys
      \<Rightarrow> broker_error option \<times> sys" where
  "authorize_loop sha rounds i b t av reqs granted s =
     (case authorize_batch_and_consume sha (rn_io (rounds i)) (timed (rounds i) reqs) s of
        (Inl e, s1) \<Rightarrow> (Some (StoreFailed e), s1)
      | (Inr ds, s1) \<Rightarrow>
     (case first_refused ds reqs of
        None \<Rightarrow> (None, s1)
      | Some (d, req) \<Rightarrow>
     (let denied = (Some (Denied (new_authorization_error sha req d (mem s1))), s1); rd = rounds i in
      if \<not> ad_requires_prompt d then denied
      else if requirement_key d req \<in> set granted then denied
      else if required_action d = ''project_lease'' then
        if av_project av = [] then denied
        else (case grant_project_lease (rn_grant_io rd) (rn_grant_clock rd) (rn_random rd) b t (av_project av) (av_window av) s1 of
            (Inl e, s2) \<Rightarrow> (Some (StoreFailed e), s2)
          | (Inr _, s2) \<Rightarrow> authorize_loop sha rounds (Suc i) b t av reqs (requirement_key d req # granted) s2)
      else if required_action d = ''secret_grant'' then
        if av_secret av = [] then denied
        else (case grant_secret_use (rn_grant_io rd) (rn_grant_clock rd) (rn_random rd) b t (ar_item_name req) (av_secret av)
                     (av_window av) (secret_relaxed req (av_secret av)) s1 of
            (Inl e, s2) \<Rightarrow> (Some (StoreFailed e), s2)
          | (Inr _, s2) \<Rightarrow> authorize_loop sha rounds (Suc i) b t av reqs (requirement_key d req # granted) s2)
      else denied)))"
  by pat_completeness auto
termination
  by (relation "measure (\<lambda>(sha, rounds, i, b, t, av, reqs, granted, s). card (batch_keys reqs - set granted))")
    (rule wf_measure, unfold in_measure prod.case, (hypsubst, rule batch_keys_shrink, assumption, simp, assumption)+)

declare authorize_loop.simps [simp del]

definition authorize_references ::
    "(string \<Rightarrow> string) \<Rightarrow> (nat \<Rightarrow> round) \<Rightarrow> string \<Rightarrow> string \<Rightarrow> (reference_access \<times> project) list \<Rightarrow> approval \<Rightarrow> sys
      \<Rightarrow> (broker_error + item list) \<times> sys" where
  "authorize_references sha rounds b t refs av s =
     (case prepare_references b t (mem s) refs of
        Inl e \<Rightarrow> (Inl e, s)
      | Inr xs \<Rightarrow>
          (case authorize_loop sha rounds 0 b t av (if xs = [] then [list_request b t] else map snd xs) [] s of
             (Some e, s1) \<Rightarrow> (Inl e, s1) | (None, s1) \<Rightarrow> (Inr (map fst xs), s1)))"

section \<open>One request\<close>

text \<open>The loop that \<open>AuthorizeReference\<close> and \<open>AuthorizeItem\<close> share: the check on the handle's own memory
  first, then the check and consumption on the file. \<open>grant\<close> answers a requirement that was not met
  before; \<open>None\<close> stands for its refusal.\<close>

definition one_attempt ::
    "(string \<Rightarrow> string) \<Rightarrow> round \<Rightarrow> access_request \<Rightarrow> sys \<Rightarrow> (store_error + access_decision) \<times> sys" where
  "one_attempt sha rd req s =
     (let d = authorize_current sha (rn_clock rd 0) req (mem s) in
      if ad_allowed d then authorize_and_consume sha (rn_io rd) (req, rn_clock rd 1, rn_now rd 0) s else (Inr d, s))"

definition one_requirements :: "string set" where
  "one_requirements = {''project_lease'', ''project_and_convenience'', ''secret_grant'', ''convenience''}"

lemma one_requirements_shrink:
  assumes "q \<in> one_requirements" and "q \<notin> set attempted"
  shows "card (one_requirements - set (q # attempted)) < card (one_requirements - set attempted)"
proof (rule psubset_card_mono)
  show "finite (one_requirements - set attempted)" by (simp add: one_requirements_def)
  show "one_requirements - set (q # attempted) \<subset> one_requirements - set attempted"
    using assms unfolding list.set by blast
qed

function (sequential) one_loop ::
    "(string \<Rightarrow> string) \<Rightarrow> (nat \<Rightarrow> round) \<Rightarrow> (string \<Rightarrow> round \<Rightarrow> sys \<Rightarrow> (store_error option \<times> sys) option) \<Rightarrow> nat \<Rightarrow> access_request
      \<Rightarrow> string list \<Rightarrow> sys \<Rightarrow> broker_error option \<times> sys" where
  "one_loop sha rounds grant i req attempted s =
     (case one_attempt sha (rounds i) req s of
        (Inl e, s1) \<Rightarrow> (Some (StoreFailed e), s1)
      | (Inr d, s1) \<Rightarrow>
          (let denied = (Some (Denied (new_authorization_error sha req d (mem s1))), s1); q = required_action d in
           if ad_allowed d then (None, s1)
           else if \<not> ad_requires_prompt d \<or> q \<in> set attempted then denied
           else if q \<notin> one_requirements then denied
           else (case grant q (rounds i) s1 of
               None \<Rightarrow> denied
             | Some (Some e, s2) \<Rightarrow> (Some (StoreFailed e), s2)
             | Some (None, s2) \<Rightarrow> one_loop sha rounds grant (Suc i) req (q # attempted) s2)))"
  by pat_completeness auto
termination
  by (relation "measure (\<lambda>(sha, rounds, grant, i, req, attempted, s). card (one_requirements - set attempted))")
    (rule wf_measure, unfold in_measure prod.case, hypsubst, rule one_requirements_shrink, simp, simp)

declare one_loop.simps [simp del]

definition outcome :: "(store_error + 'a) \<times> sys \<Rightarrow> store_error option \<times> sys" where
  "outcome r = (case r of (Inl e, s) \<Rightarrow> (Some e, s) | (Inr _, s) \<Rightarrow> (None, s))"

text \<open>The grants of \<open>AuthorizeReference\<close> and of \<open>AuthorizeItem\<close>, by the requirement.\<close>

definition give_lease :: "approval \<Rightarrow> access_request \<Rightarrow> round \<Rightarrow> sys \<Rightarrow> (store_error option \<times> sys) option" where
  "give_lease av req rd s =
     (if av_project av = [] then None
      else Some (outcome (grant_project_lease (rn_grant_io rd) (rn_grant_clock rd) (rn_random rd) (ar_binding_id req)
             (ar_session_token req) (av_project av) (av_window av) s)))"

definition give_secret :: "approval \<Rightarrow> access_request \<Rightarrow> round \<Rightarrow> sys \<Rightarrow> (store_error option \<times> sys) option" where
  "give_secret av req rd s =
     (if av_secret av = [] then None
      else Some (outcome (grant_secret_use (rn_grant_io rd) (rn_grant_clock rd) (rn_random rd) (ar_binding_id req)
             (ar_session_token req) (ar_item_name req) (av_secret av) (av_window av) (secret_relaxed req (av_secret av)) s)))"

definition give_for_reference ::
    "(string \<Rightarrow> string) \<Rightarrow> approval \<Rightarrow> access_request \<Rightarrow> string \<Rightarrow> round \<Rightarrow> sys \<Rightarrow> (store_error option \<times> sys) option" where
  "give_for_reference sha av req q rd s =
     (if q = ''project_lease'' \<or> q = ''project_and_convenience'' then give_lease av req rd s
      else if q = ''secret_grant'' then give_secret av req rd s
      else if q = ''convenience'' then
        (if av_convenience av = [] then None
         else Some (outcome (grant_convenience sha (rn_grant_io rd) (rn_grant_clock rd) (rn_random rd) (ar_binding_id req)
                (ar_session_token req) (ar_destination_path req) (ar_aliases req) ''user'' (av_convenience av) (av_window av) s)))
      else None)"

definition give_for_item :: "approval \<Rightarrow> access_request \<Rightarrow> string \<Rightarrow> round \<Rightarrow> sys \<Rightarrow> (store_error option \<times> sys) option" where
  "give_for_item av req q rd s =
     (if q = ''project_lease'' then give_lease av req rd s
      else if q = ''secret_grant'' then give_secret av req rd s
      else None)"

definition authorize_reference ::
    "(string \<Rightarrow> string) \<Rightarrow> (nat \<Rightarrow> round) \<Rightarrow> string \<Rightarrow> string \<Rightarrow> project \<Rightarrow> string \<Rightarrow> string \<Rightarrow> approval \<Rightarrow> string \<Rightarrow> sys
      \<Rightarrow> (broker_error + item) \<times> sys" where
  "authorize_reference sha rounds b t p reference operation av destination s =
     (case reference_item p reference (mem s) of
        Inl e \<Rightarrow> (Inl e, s)
      | Inr it \<Rightarrow>
          let req = \<lparr>ar_operation = operation, ar_binding_id = b, ar_session_token = t, ar_item_name = it_name it,
                     ar_policy = im_policy (it_metadata it), ar_destination_path = destination, ar_aliases = [reference],
                     ar_creating_new = False\<rparr>
          in (case one_loop sha rounds (give_for_reference sha av req) 0 req [] s of
                (Some e, s1) \<Rightarrow> (Inl e, s1) | (None, s1) \<Rightarrow> (Inr it, s1)))"

definition authorize_item ::
    "(string \<Rightarrow> string) \<Rightarrow> (nat \<Rightarrow> round) \<Rightarrow> string \<Rightarrow> string \<Rightarrow> item \<Rightarrow> string \<Rightarrow> approval \<Rightarrow> sys \<Rightarrow> (broker_error + item) \<times> sys" where
  "authorize_item sha rounds b t it operation av s =
     (let req = \<lparr>ar_operation = operation, ar_binding_id = b, ar_session_token = t, ar_item_name = it_name it,
                 ar_policy = im_policy (it_metadata it), ar_destination_path = [], ar_aliases = [], ar_creating_new = False\<rparr>
      in (case one_loop sha rounds (give_for_item av req) 0 req [] s of
            (Some e, s1) \<Rightarrow> (Inl e, s1) | (None, s1) \<Rightarrow> (Inr it, s1)))"

section \<open>Capture\<close>

definition capture_request :: "string \<Rightarrow> string \<Rightarrow> access_request" where
  "capture_request b t = \<lparr>ar_operation = ''capture'', ar_binding_id = b, ar_session_token = t, ar_item_name = [], ar_policy = [],
     ar_destination_path = [], ar_aliases = [], ar_creating_new = True\<rparr>"

text \<open>The end of a capture of a new item, from its decision on: the write grant and the consumption of the
  lease, in round \<open>1\<close>.\<close>

definition finish_capture ::
    "(string \<Rightarrow> string) \<Rightarrow> round \<Rightarrow> access_request \<Rightarrow> bool \<Rightarrow> access_decision \<Rightarrow> sys \<Rightarrow> broker_error option \<times> sys" where
  "finish_capture sha rd req write_grant d s =
     (if required_action d \<noteq> ''write_grant'' \<or> \<not> write_grant
      then (Some (Denied (new_authorization_error sha req d (mem s))), s)
      else (case consume_project_lease (rn_io rd) (rn_now rd 0) (ar_binding_id req) (ar_session_token req) s of
          (Some e, s1) \<Rightarrow> (Some (StoreFailed e), s1) | (None, s1) \<Rightarrow> (None, s1)))"

definition authorize_capture ::
    "(string \<Rightarrow> string) \<Rightarrow> (nat \<Rightarrow> round) \<Rightarrow> string \<Rightarrow> string \<Rightarrow> string \<Rightarrow> approval \<Rightarrow> bool \<Rightarrow> sys \<Rightarrow> broker_error option \<times> sys" where
  "authorize_capture sha rounds b t name av write_grant s =
     (case get_item name (mem s) of
        Some it \<Rightarrow> (case authorize_item sha rounds b t it ''capture'' av s of
            (Inl e, s1) \<Rightarrow> (Some e, s1) | (Inr _, s1) \<Rightarrow> (None, s1))
      | None \<Rightarrow>
          let req = capture_request b t; rd = rounds 0;
              d = authorize_current sha (rn_clock rd 0) req (mem s)
          in if ad_allowed d then (None, s)
             else if \<not> ad_requires_prompt d then (Some (AccessDenied (ad_reason d)), s)
             else if required_action d = ''project_lease'' then
               (case give_lease av req rd s of
                  None \<Rightarrow> (Some (Denied (new_authorization_error sha req d (mem s))), s)
                | Some (Some e, s1) \<Rightarrow> (Some (StoreFailed e), s1)
                | Some (None, s1) \<Rightarrow>
                    finish_capture sha (rounds 1) req write_grant (authorize_current sha (rn_clock (rounds 1) 0) req (mem s1)) s1)
             else finish_capture sha (rounds 1) req write_grant d s)"

section \<open>What a batch reads\<close>

lemma batch_decides:
  assumes "authorize_batch_and_consume sha io batch s = (Inr ds, s1)"
  obtains d where "disk s = Some d" "ds = map (\<lambda>(req, clock, now). authorize_current sha clock req (read_state d)) batch"
    "\<not> list_all ad_allowed ds \<Longrightarrow> disk s1 = Some d \<and> mem s1 = read_state d"
proof -
  have run: "batch \<noteq> [] \<and> \<not> mixed_batch batch"
    using assms by (auto simp: authorize_batch_and_consume_def split: if_splits)
  obtain e s0 where ref: "refresh_state io s = (e, s0)" by force
  with run assms have "e = None" by (auto simp: authorize_batch_and_consume_def split: option.splits)
  with refresh_eqE [OF ref] obtain d where d: "disk s = Some d" "mem s0 = read_state d" "disk s0 = Some d" by auto
  have "ds = map (\<lambda>(req, clock, now). authorize_current sha clock req (mem s0)) batch \<and> (\<not> list_all ad_allowed ds \<longrightarrow> s1 = s0)"
    using assms run ref \<open>e = None\<close>
    by (auto simp: authorize_batch_and_consume_def Let_def split: if_splits prod.splits option.splits)
  with d that show thesis by simp
qed

lemma timed_simps [simp]:
  "map (\<lambda>(req, clock, now). authorize_current sha clock req v) (timed rd reqs)
     = map (\<lambda>(i, req). authorize_current sha (rn_clock rd i) req v) (enumerate 0 reqs)"
  by (simp add: timed_def comp_def split_def)

lemma first_refused_None: "length ds = length reqs \<Longrightarrow> first_refused ds reqs = None \<longleftrightarrow> list_all ad_allowed ds"
proof -
  assume "length ds = length reqs"
  then have "(\<forall>x\<in>set (zip ds reqs). ad_allowed (fst x)) \<longleftrightarrow> (\<forall>d\<in>set ds. ad_allowed d)"
    by (metis (no_types) list.set_map map_fst_zip image_iff)
  then show ?thesis by (auto simp: first_refused_def find_None_iff list_all_iff split_def)
qed

section \<open>No authority beyond the approvals\<close>

definition approved_entries :: "string \<Rightarrow> (string \<Rightarrow> bool) \<Rightarrow> ('a grant_scheme) gomap \<Rightarrow> ('a grant_scheme) gomap \<Rightarrow> bool" where
  "approved_entries scope mine m0 m \<longleftrightarrow>
     (\<forall>k g. map_of m k = Some g \<longrightarrow> map_of m0 k = Some g \<or> (mine k \<and> scope \<noteq> [] \<and> g_scope g = scope))"

text \<open>The grants of \<open>v\<close> are those of \<open>v0\<close>, besides ones of this binding and session with a scope the
  caller approved.\<close>

definition within_approval :: "approval \<Rightarrow> string \<Rightarrow> string \<Rightarrow> vault \<Rightarrow> vault \<Rightarrow> bool" where
  "within_approval av b t v0 v \<longleftrightarrow>
     approved_entries (av_project av) (\<lambda>k. k = lease_key b t) (v_leases v0) (v_leases v)
   \<and> approved_entries (av_secret av) (\<lambda>k. \<exists>name. k = secret_grant_key b t name) (v_secrets v0) (v_secrets v)
   \<and> v_conveniences v = v_conveniences v0"

lemma approved_entries_refl [simp]: "approved_entries scope mine m m"
  by (simp add: approved_entries_def)

lemma within_approval_refl [simp]: "within_approval av b t v v"
  by (simp add: within_approval_def)

lemma within_approval_read_state [simp]: "within_approval av b t v0 (read_state v) = within_approval av b t v0 v"
  by (simp add: within_approval_def)

lemma approved_entries_put:
  "approved_entries scope mine m0 m \<Longrightarrow> mine k \<Longrightarrow> scope \<noteq> [] \<Longrightarrow> g_scope g = scope \<Longrightarrow> approved_entries scope mine m0 (put k g m)"
  by (simp add: approved_entries_def)

lemma within_put_lease:
  "within_approval av b t v0 v \<Longrightarrow> av_project av \<noteq> [] \<Longrightarrow> g_scope g = av_project av \<Longrightarrow>
     within_approval av b t v0 (v\<lparr>v_leases := put (lease_key b t) g (v_leases v)\<rparr>)"
  by (simp add: within_approval_def approved_entries_put)

lemma within_put_secret:
  "within_approval av b t v0 v \<Longrightarrow> av_secret av \<noteq> [] \<Longrightarrow> g_scope g = av_secret av \<Longrightarrow>
     within_approval av b t v0 (v\<lparr>v_secrets := put (secret_grant_key b t name) g (v_secrets v)\<rparr>)"
  by (auto simp: within_approval_def intro!: approved_entries_put)

text \<open>One minting operation after a refused batch.\<close>

lemma lease_given:
  assumes "grant_project_lease io clock rnd b t scope ttl s = (Inr g, s')" and "disk s = Some d" and "mem s = read_state d"
  obtains "disk s' = Some d"
  | "disk s' = Some ((read_state d)\<lparr>v_leases := put (lease_key b t) g (v_leases d)\<rparr>)" "g_scope g = scope"
proof -
  have "disk s' = Some d \<or> (g_scope g = scope \<and> disk s' = Some ((read_state d)\<lparr>v_leases := put (lease_key b t) g (v_leases d)\<rparr>))"
  proof (cases "scope = ''once''")
    case True
    obtain e s1 where ref: "refresh_state io s = (e, s1)" by force
    note f = refresh_eqE [OF ref]
    show ?thesis
      using assms True ref f
      by (auto simp: grant_project_lease_def compute_expiry_def Let_def split: option.splits dest!: done_with_InrD)
  next
    case False
    with assms show ?thesis
      by (auto simp: grant_project_lease_def Let_def split: sum.splits option.splits dest!: done_with_InrD)
  qed
  with that show thesis by blast
qed

lemma secret_given:
  assumes "grant_secret_use io clock rnd b t name scope ttl relaxed s = (Inr g, s')" and "disk s = Some d" and "mem s = read_state d"
  obtains "disk s' = Some d"
  | "disk s' = Some ((read_state d)\<lparr>v_secrets := put (secret_grant_key b t name) g (v_secrets d)\<rparr>)" "g_scope g = scope"
proof -
  have "disk s' = Some d \<or> (g_scope g = scope \<and>
      disk s' = Some ((read_state d)\<lparr>v_secrets := put (secret_grant_key b t name) g (v_secrets d)\<rparr>))"
  proof (cases "scope = ''once''")
    case True
    obtain e s1 where ref: "refresh_state io s = (e, s1)" by force
    note f = refresh_eqE [OF ref]
    show ?thesis
      using assms True ref f
      by (auto simp: grant_secret_use_def compute_expiry_def Let_def split: option.splits dest!: done_with_InrD)
  next
    case False
    with assms show ?thesis
      by (auto simp: grant_secret_use_def Let_def split: sum.splits option.splits dest!: done_with_InrD)
  qed
  with that show thesis by blast
qed


text \<open>How a loop that lets the requests pass goes on.\<close>

lemma authorize_loop_NoneE:
  assumes "authorize_loop sha rounds i b t av reqs granted s = (None, s')"
  obtains (pass) ds where "authorize_batch_and_consume sha (rn_io (rounds i)) (timed (rounds i) reqs) s = (Inr ds, s')"
      "first_refused ds reqs = None"
  | (lease) ds s1 d req g s2 where "authorize_batch_and_consume sha (rn_io (rounds i)) (timed (rounds i) reqs) s = (Inr ds, s1)"
      "first_refused ds reqs = Some (d, req)" "requirement_key d req \<notin> set granted" "required_action d = ''project_lease''"
      "av_project av \<noteq> []"
      "grant_project_lease (rn_grant_io (rounds i)) (rn_grant_clock (rounds i)) (rn_random (rounds i)) b t (av_project av) (av_window av) s1
         = (Inr g, s2)"
      "authorize_loop sha rounds (Suc i) b t av reqs (requirement_key d req # granted) s2 = (None, s')"
  | (secret) ds s1 d req g s2 where "authorize_batch_and_consume sha (rn_io (rounds i)) (timed (rounds i) reqs) s = (Inr ds, s1)"
      "first_refused ds reqs = Some (d, req)" "requirement_key d req \<notin> set granted" "required_action d = ''secret_grant''"
      "av_secret av \<noteq> []"
      "grant_secret_use (rn_grant_io (rounds i)) (rn_grant_clock (rounds i)) (rn_random (rounds i)) b t (ar_item_name req) (av_secret av)
         (av_window av) (secret_relaxed req (av_secret av)) s1 = (Inr g, s2)"
      "authorize_loop sha rounds (Suc i) b t av reqs (requirement_key d req # granted) s2 = (None, s')"
proof -
  note run = assms [unfolded authorize_loop.simps [of sha rounds i]]
  obtain r s1 where batch: "authorize_batch_and_consume sha (rn_io (rounds i)) (timed (rounds i) reqs) s = (r, s1)" by force
  with run obtain ds where r: "r = Inr ds" by (cases r) auto
  show thesis
  proof (cases "first_refused ds reqs")
    case None
    have "s1 = s'" using run by (simp add: batch r None)
    with batch r None pass show thesis by simp
  next
    case (Some dr)
    then obtain d req where f: "first_refused ds reqs = Some (d, req)" by (cases dr) auto
    note run' = run [unfolded batch r sum.case prod.case f option.case Let_def]
    have key: "requirement_key d req \<notin> set granted" using run' by (auto simp: Let_def split: if_splits)
    show thesis
    proof (cases "required_action d = ''project_lease''")
      case True
      with run' key have "av_project av \<noteq> []" by (auto simp: Let_def split: if_splits)
      moreover from this obtain g s2 where
        "grant_project_lease (rn_grant_io (rounds i)) (rn_grant_clock (rounds i)) (rn_random (rounds i)) b t (av_project av) (av_window av) s1
          = (Inr g, s2)"
        "authorize_loop sha rounds (Suc i) b t av reqs (requirement_key d req # granted) s2 = (None, s')"
        using run' key True by (auto simp: Let_def split: if_splits prod.splits sum.splits)
      ultimately show thesis using lease batch r f key True by blast
    next
      case False
      with run' key have "required_action d = ''secret_grant''" "av_secret av \<noteq> []" by (auto simp: Let_def split: if_splits)
      moreover from this obtain g s2 where
        "grant_secret_use (rn_grant_io (rounds i)) (rn_grant_clock (rounds i)) (rn_random (rounds i)) b t (ar_item_name req) (av_secret av)
           (av_window av) (secret_relaxed req (av_secret av)) s1 = (Inr g, s2)"
        "authorize_loop sha rounds (Suc i) b t av reqs (requirement_key d req # granted) s2 = (None, s')"
        using run' key False by (auto simp: Let_def split: if_splits prod.splits sum.splits)
      ultimately show thesis using secret batch r f key by blast
    qed
  qed
qed

lemma batch_reads:
  assumes "authorize_batch_and_consume sha io (timed rd reqs) s = (Inr ds, s1)" and "disk s = Some d"
  shows "ds = map (\<lambda>(j, req). authorize_current sha (rn_clock rd j) req (read_state d)) (enumerate 0 reqs)"
    and "first_refused ds reqs = Some x \<Longrightarrow> disk s1 = Some d \<and> mem s1 = read_state d"
proof -
  from batch_decides [OF assms(1)] assms(2)
  have ds: "ds = map (\<lambda>(j, req). authorize_current sha (rn_clock rd j) req (read_state d)) (enumerate 0 reqs)"
    and denied: "\<not> list_all ad_allowed ds \<Longrightarrow> disk s1 = Some d \<and> mem s1 = read_state d" by (metis option.inject timed_simps)+
  from ds have "length ds = length reqs" by simp
  from ds denied first_refused_None [OF this] show "ds = map (\<lambda>(j, req). authorize_current sha (rn_clock rd j) req (read_state d)) (enumerate 0 reqs)"
    and "first_refused ds reqs = Some x \<Longrightarrow> disk s1 = Some d \<and> mem s1 = read_state d" by auto
qed

text \<open>All requests pass in one state of the file, at the clock readings of a round.\<close>

definition all_pass :: "(string \<Rightarrow> string) \<Rightarrow> round \<Rightarrow> access_request list \<Rightarrow> vault \<Rightarrow> bool" where
  "all_pass sha rd reqs v \<longleftrightarrow> list_all (\<lambda>(j, req). ad_allowed (authorize_current sha (rn_clock rd j) req v)) (enumerate 0 reqs)"

text \<open>The loop, once it lets the requests pass, has checked them all against one state of the file that is
  within the approvals.\<close>

lemma authorize_loop_within:
  "authorize_loop sha rounds i b t av reqs granted s = (None, s') \<Longrightarrow> disk s = Some d \<Longrightarrow> within_approval av b t v0 d \<Longrightarrow>
     \<exists>n v. within_approval av b t v0 v \<and> all_pass sha (rounds n) reqs v"
proof (induction "card (batch_keys reqs - set granted)" arbitrary: i granted s d rule: less_induct)
  case less
  from less.prems(1) show ?case
  proof (cases rule: authorize_loop_NoneE)
    case (pass ds)
    note ds = batch_reads(1) [OF pass(1) less.prems(2)]
    from pass(2) have "list_all ad_allowed ds" using first_refused_None [of ds reqs] ds by simp
    then have "all_pass sha (rounds i) reqs (read_state d)"
      unfolding ds list.pred_map comp_def all_pass_def by (simp add: split_def)
    with less.prems(3) show ?thesis by (metis within_approval_read_state)
  next
    case (lease ds s1 dn req g s2)
    have s1: "disk s1 = Some d" "mem s1 = read_state d" using batch_reads(2) [OF lease(1) less.prems(2) lease(2)] by auto
    have "\<exists>d'. disk s2 = Some d' \<and> within_approval av b t v0 d'"
      using lease(6) s1
    proof (cases rule: lease_given)
      case 2
      with lease(5) less.prems(3) show ?thesis using within_put_lease [of av b t v0 "read_state d" g] by simp
    qed (use less.prems(3) in simp)
    with less.hyps [OF batch_keys_shrink [OF lease(2) _ lease(3)] lease(7)] lease(4) show ?thesis by blast
  next
    case (secret ds s1 dn req g s2)
    have s1: "disk s1 = Some d" "mem s1 = read_state d" using batch_reads(2) [OF secret(1) less.prems(2) secret(2)] by auto
    have "\<exists>d'. disk s2 = Some d' \<and> within_approval av b t v0 d'"
      using secret(6) s1
    proof (cases rule: secret_given)
      case 2
      with secret(5) less.prems(3) show ?thesis using within_put_secret [of av b t v0 "read_state d" g] by simp
    qed (use less.prems(3) in simp)
    with less.hyps [OF batch_keys_shrink [OF secret(2) _ secret(3)] secret(7)] secret(4) show ?thesis by blast
  qed
qed

lemma prepare_references_Inr:
  "prepare_references b t v refs = Inr xs \<Longrightarrow>
     list_all2 (\<lambda>rp x. reference_item (snd rp) (ra_reference (fst rp)) v = Inr (fst x) \<and> snd x = batch_request b t (fst rp) (fst x)
       \<and> (ra_operation (fst rp) = ''run'' \<longrightarrow> it_kind (fst x) \<noteq> ''file'')) refs xs"
proof (induction refs arbitrary: xs)
  case (Cons rp rps)
  from Cons.prems obtain x ys where x: "prepare_reference b t v rp = Inr x" and ys: "prepare_references b t v rps = Inr ys" "xs = x # ys"
    by (auto elim!: bind_r_InrE)
  from x have "reference_item (snd rp) (ra_reference (fst rp)) v = Inr (fst x) \<and> snd x = batch_request b t (fst rp) (fst x)
    \<and> (ra_operation (fst rp) = ''run'' \<longrightarrow> it_kind (fst x) \<noteq> ''file'')"
    by (auto simp: prepare_reference_def split: sum.splits if_splits)
  with Cons.IH [OF ys(1)] ys(2) show ?case by simp
qed simp

lemma all_pass_nth:
  "all_pass sha rd reqs v \<longleftrightarrow> (\<forall>j<length reqs. ad_allowed (authorize_current sha (rn_clock rd j) (reqs ! j) v))"
  by (auto simp: all_pass_def list_all_length nth_enumerate_eq)

section \<open>An approved request goes through\<close>

definition always_active :: "'a grant_scheme \<Rightarrow> bool" where
  "always_active g \<longleftrightarrow> g_scope g = ''session'' \<and> g_expires_at g = None \<and> g_revoked_at g = None"

lemma always_active_now [simp]: "always_active g \<Longrightarrow> grant_is_active now g"
  by (simp add: always_active_def grant_is_active_def)

definition plain_request :: "string \<Rightarrow> string \<Rightarrow> access_request \<Rightarrow> bool" where
  "plain_request b t req \<longleftrightarrow> ar_operation req \<in> {''list'', ''run'', ''inject''} \<and> ar_policy req \<in> {'''', ''auto'', ''session'', ''access''}
     \<and> ar_binding_id req = b \<and> ar_session_token req = t"

lemma prompt_requirement [simp]:
  "q \<noteq> [] \<Longrightarrow> required_action (prompt r q) = q" "ad_requires_prompt (prompt r q)"
  by (simp_all add: prompt_def required_action_def)

lemma authorize_plain:
  assumes "plain_request b t req"
  shows "authorize_current sha clock req v =
    (if ar_operation req = ''list'' then
       (if \<not> project_lease_active (clock 0) b t v then prompt ''project_lease_required'' ''project_lease'' else allow ''scoped_listing_allowed'')
     else authorize_secret clock req (if ar_policy req = '''' then ''auto'' else ar_policy req) v)"
proof -
  have bt: "ar_binding_id req = b" "ar_session_token req = t" using assms by (simp_all add: plain_request_def)
  consider "ar_operation req = ''list''" | "ar_operation req = ''run''" | "ar_operation req = ''inject''"
    using assms by (auto simp: plain_request_def)
  then show ?thesis by cases (simp_all add: authorize_current_def write_env_gate_def Let_def bt)
qed

lemma refused_secret:
  assumes "policy \<in> {''auto'', ''session'', ''access''}" and "\<not> ad_allowed (authorize_secret clock req policy v)"
  shows "(\<exists>r now. authorize_secret clock req policy v = prompt r ''project_lease''
        \<and> \<not> project_lease_active now (ar_binding_id req) (ar_session_token req) v)
    \<or> (\<exists>r now. authorize_secret clock req policy v = prompt r ''secret_grant''
        \<and> \<not> secret_grant_active now (ar_binding_id req) (ar_session_token req) (ar_item_name req) v)"
proof -
  consider "policy = ''auto''" | "policy = ''session''" | "policy = ''access''" using assms(1) by auto
  then show ?thesis
  proof cases
    case 1
    with assms(2) show ?thesis by (auto simp: authorize_secret_def split: if_splits)
  next
    case 2
    with assms(2) show ?thesis by (auto simp: authorize_secret_def split: if_splits)
  next
    case 3
    with assms(2) show ?thesis by (auto simp: authorize_secret_def split: if_splits)
  qed
qed

lemma refused_requirement:
  assumes "plain_request b t req" and "\<not> ad_allowed (authorize_current sha clock req v)"
  shows "(\<exists>r now. authorize_current sha clock req v = prompt r ''project_lease'' \<and> \<not> project_lease_active now b t v)
    \<or> (\<exists>r now. authorize_current sha clock req v = prompt r ''secret_grant'' \<and> \<not> secret_grant_active now b t (ar_item_name req) v)"
proof (cases "ar_operation req = ''list''")
  case True
  have "authorize_current sha clock req v = (if \<not> project_lease_active (clock 0) b t v
      then prompt ''project_lease_required'' ''project_lease'' else allow ''scoped_listing_allowed'')"
    unfolding authorize_plain [OF assms(1)] if_P [OF True] ..
  with assms(2) show ?thesis by (metis allowed_simps(2))
next
  case False
  let ?policy = "if ar_policy req = '''' then ''auto'' else ar_policy req"
  have eq: "authorize_current sha clock req v = authorize_secret clock req ?policy v"
    unfolding authorize_plain [OF assms(1)] if_not_P [OF False] ..
  have "?policy \<in> {''auto'', ''session'', ''access''}" and "ar_binding_id req = b" and "ar_session_token req = t"
    using assms(1) by (auto simp: plain_request_def)
  with refused_secret [OF this(1), of clock req v] assms(2) show ?thesis unfolding eq by metis
qed

lemma persist_io_ok: "disk s = Some d \<Longrightarrow> persist io_ok s = (None, s\<lparr>disk := Some (mem s)\<rparr>)"
  by (simp add: persist_def io_ok_def)

lemma persist_and_log_io_ok: "disk s = Some d \<Longrightarrow> \<exists>s'. persist_and_log io_ok ty de s = (None, s') \<and> disk s' = Some (mem s)"
  by (simp add: persist_and_log_def persist_io_ok)

lemma batch_succeeds:
  assumes "disk s = Some d" and "reqs \<noteq> []" and "\<forall>r\<in>set reqs. plain_request b t r"
  shows "\<exists>ds s1. authorize_batch_and_consume sha io_ok (timed rd reqs) s = (Inr ds, s1)"
proof -
  have same: "ar_binding_id (fst r) = b \<and> ar_session_token (fst r) = t" if "r \<in> set (timed rd reqs)" for r
    using that assms(3) by (auto simp: timed_def plain_request_def in_set_enumerate_eq)
  have ne: "timed rd reqs \<noteq> []" using assms(2) by (simp add: timed_def enumerate_eq_zip)
  have "\<not> mixed_batch (timed rd reqs)"
    using same same [OF hd_in_set [OF ne]] by (auto simp: mixed_batch_def)
  moreover have "refresh_state io_ok s = (None, s\<lparr>mem := read_state d\<rparr>)"
    using assms(1) by (simp add: refresh_state_def io_ok_def)
  ultimately show ?thesis
    using ne assms(1) by (simp add: authorize_batch_and_consume_def Let_def persist_io_ok split: prod.split)
qed

lemma session_lease_given:
  assumes "disk s = Some d" and "mem s = read_state d"
  shows "\<exists>g s'. grant_project_lease io_ok clock (Some gid) b t ''session'' ttl s = (Inr g, s')
    \<and> disk s' = Some ((read_state d)\<lparr>v_leases := put (lease_key b t) g (v_leases d)\<rparr>) \<and> always_active g"
proof -
  let ?g = "\<lparr>g_id = gid, g_scope = ''session'', g_expires_at = None, g_revoked_at = None, g_used_at = None,
    pl_binding_id = b, pl_session_token = t\<rparr>"
  obtain s' where "persist_and_log io_ok ''grant.project'' [(''binding_id'', DStr b), (''scope'', DStr ''session'')]
      (s\<lparr>mem := (mem s)\<lparr>v_leases := put (lease_key b t) ?g (v_leases (mem s))\<rparr>\<rparr>) = (None, s')"
    "disk s' = Some ((mem s)\<lparr>v_leases := put (lease_key b t) ?g (v_leases (mem s))\<rparr>)"
    using persist_and_log_io_ok [of "s\<lparr>mem := (mem s)\<lparr>v_leases := put (lease_key b t) ?g (v_leases (mem s))\<rparr>\<rparr>"] assms(1) by fastforce
  then show ?thesis
    using assms(2) by (simp add: grant_project_lease_def compute_expiry_def done_with_def always_active_def)
qed

lemma session_secret_given:
  assumes "disk s = Some d" and "mem s = read_state d"
  shows "\<exists>g s'. grant_secret_use io_ok clock (Some gid) b t name ''session'' ttl relaxed s = (Inr g, s')
    \<and> disk s' = Some ((read_state d)\<lparr>v_secrets := put (secret_grant_key b t name) g (v_secrets d)\<rparr>) \<and> always_active g"
proof -
  let ?g = "\<lparr>g_id = gid, g_scope = ''session'', g_expires_at = None, g_revoked_at = None, g_used_at = None,
    sg_binding_id = b, sg_item_name = name, sg_session_token = t, sg_relaxed_by_window = relaxed\<rparr>"
  obtain s' where "persist_and_log io_ok ''grant.secret'' [(''binding_id'', DStr b), (''item'', DStr name),
        (''scope'', DStr ''session''), (''relaxed'', DBool relaxed)]
      (s\<lparr>mem := (mem s)\<lparr>v_secrets := put (secret_grant_key b t name) ?g (v_secrets (mem s))\<rparr>\<rparr>) = (None, s')"
    "disk s' = Some ((mem s)\<lparr>v_secrets := put (secret_grant_key b t name) ?g (v_secrets (mem s))\<rparr>)"
    using persist_and_log_io_ok [of "s\<lparr>mem := (mem s)\<lparr>v_secrets := put (secret_grant_key b t name) ?g (v_secrets (mem s))\<rparr>\<rparr>"] assms(1)
    by fastforce
  then show ?thesis
    using assms(2) by (simp add: grant_secret_use_def compute_expiry_def done_with_def always_active_def)
qed

text \<open>The requirements met so far in this call have grants that stay active.\<close>

definition granted_active :: "string \<Rightarrow> string \<Rightarrow> string list \<Rightarrow> vault \<Rightarrow> bool" where
  "granted_active b t granted v \<longleftrightarrow>
     (''project_lease'' \<in> set granted \<longrightarrow> (\<exists>g. map_of (v_leases v) (lease_key b t) = Some g \<and> always_active g))
   \<and> (\<forall>name. ''secret_grant:'' @ name \<in> set granted \<longrightarrow> (\<exists>g. map_of (v_secrets v) (secret_grant_key b t name) = Some g \<and> always_active g))"

lemma granted_active_read_state [simp]: "granted_active b t granted (read_state v) = granted_active b t granted v"
  by (simp add: granted_active_def)

lemma granted_active_lease:
  "granted_active b t granted v \<Longrightarrow> always_active g \<Longrightarrow>
     granted_active b t (''project_lease'' # granted) (v\<lparr>v_leases := put (lease_key b t) g (v_leases v)\<rparr>)"
  by (simp add: granted_active_def)

lemma granted_active_secret:
  "granted_active b t granted v \<Longrightarrow> always_active g \<Longrightarrow>
     granted_active b t ((''secret_grant:'' @ name) # granted) (v\<lparr>v_secrets := put (secret_grant_key b t name) g (v_secrets v)\<rparr>)"
  by (simp add: granted_active_def)


definition all_well :: "(nat \<Rightarrow> round) \<Rightarrow> bool" where
  "all_well rounds \<longleftrightarrow> (\<forall>i. rn_io (rounds i) = io_ok \<and> rn_grant_io (rounds i) = io_ok \<and> rn_random (rounds i) \<noteq> None)"

text \<open>One pass of the loop that grants and goes on.\<close>

lemma authorize_loop_next:
  assumes "authorize_batch_and_consume sha (rn_io (rounds i)) (timed (rounds i) reqs) s = (Inr ds, s1)"
    and "first_refused ds reqs = Some (dn, req)" and "requirement_key dn req \<notin> set granted"
  shows "dn = prompt r ''project_lease'' \<Longrightarrow> av_project av \<noteq> [] \<Longrightarrow>
      grant_project_lease (rn_grant_io (rounds i)) (rn_grant_clock (rounds i)) (rn_random (rounds i)) b t (av_project av) (av_window av) s1 = (Inr g, s2) \<Longrightarrow>
      authorize_loop sha rounds i b t av reqs granted s = authorize_loop sha rounds (Suc i) b t av reqs (requirement_key dn req # granted) s2"
    and "dn = prompt r ''secret_grant'' \<Longrightarrow> av_secret av \<noteq> [] \<Longrightarrow>
      grant_secret_use (rn_grant_io (rounds i)) (rn_grant_clock (rounds i)) (rn_random (rounds i)) b t (ar_item_name req) (av_secret av)
        (av_window av) (secret_relaxed req (av_secret av)) s1 = (Inr g', s2) \<Longrightarrow>
      authorize_loop sha rounds i b t av reqs granted s = authorize_loop sha rounds (Suc i) b t av reqs (requirement_key dn req # granted) s2"
  using assms by (simp_all add: authorize_loop.simps [of sha rounds i])

lemma approved_loop_passes:
  assumes "all_well rounds" and "av_project av = ''session''" and "av_secret av = ''session''"
    and "reqs \<noteq> []" and plain: "\<forall>r\<in>set reqs. plain_request b t r"
  shows "disk s = Some d \<Longrightarrow> granted_active b t granted d \<Longrightarrow> \<exists>s'. authorize_loop sha rounds i b t av reqs granted s = (None, s')"
proof (induction "card (batch_keys reqs - set granted)" arbitrary: i granted s d rule: less_induct)
  case less
  let ?rd = "rounds i"
  have io: "rn_io ?rd = io_ok" "rn_grant_io ?rd = io_ok" using assms(1) by (simp_all add: all_well_def)
  obtain gid where gid: "rn_random ?rd = Some gid" using assms(1) by (auto simp: all_well_def)
  obtain ds s1 where batch: "authorize_batch_and_consume sha (rn_io ?rd) (timed ?rd reqs) s = (Inr ds, s1)"
    using batch_succeeds [OF less.prems(1) assms(4) plain] unfolding io by blast
  note ds = batch_reads(1) [OF batch less.prems(1)]
  show ?case
  proof (cases "first_refused ds reqs")
    case None
    with batch show ?thesis by (simp add: authorize_loop.simps [of sha rounds i])
  next
    case (Some x)
    obtain dn req where x: "x = (dn, req)" by force
    note f = Some [unfolded x]
    from batch_reads(2) [OF batch less.prems(1) f] have s1: "disk s1 = Some d" "mem s1 = read_state d" by auto
    obtain j where dn: "dn = authorize_current sha (rn_clock ?rd j) req (read_state d)" and req: "req \<in> set reqs"
      using first_refused_nth [OF f] ds by (auto simp: nth_enumerate_eq)
    from first_refused_SomeD [OF f] have "\<not> ad_allowed dn" by simp
    with refused_requirement [of b t req sha "rn_clock ?rd j" "read_state d"] plain req dn
    consider (lease) r now where "dn = prompt r ''project_lease''" "\<not> project_lease_active now b t (read_state d)"
      | (secret) r now where "dn = prompt r ''secret_grant''" "\<not> secret_grant_active now b t (ar_item_name req) (read_state d)"
      by blast
    then show ?thesis
    proof cases
      case lease
      have key: "requirement_key dn req = ''project_lease''" using lease(1) by (simp add: requirement_key_def)
      have new: "requirement_key dn req \<notin> set granted"
        using lease(2) less.prems(2) unfolding key by (auto simp: granted_active_def project_lease_active_def entry_active_def)
      obtain g s2 where give: "grant_project_lease io_ok (rn_grant_clock ?rd) (Some gid) b t ''session'' (av_window av) s1 = (Inr g, s2)"
        and d2: "disk s2 = Some ((read_state d)\<lparr>v_leases := put (lease_key b t) g (v_leases d)\<rparr>)" and g: "always_active g"
        using session_lease_given [OF s1] by blast
      have "granted_active b t (requirement_key dn req # granted) ((read_state d)\<lparr>v_leases := put (lease_key b t) g (v_leases d)\<rparr>)"
        unfolding key using granted_active_lease [OF _ g, of b t granted "read_state d"] less.prems(2) by simp
      from less.hyps [OF batch_keys_shrink [OF f _ new] d2 this] lease(1)
      obtain s' where "authorize_loop sha rounds (Suc i) b t av reqs (requirement_key dn req # granted) s2 = (None, s')" by auto
      with authorize_loop_next(1) [of sha rounds i, OF batch f new lease(1), of av b t g s2] give assms(2) show ?thesis by (simp add: io gid)
    next
      case secret
      have key: "requirement_key dn req = ''secret_grant:'' @ ar_item_name req" using secret(1) by (simp add: requirement_key_def)
      have new: "requirement_key dn req \<notin> set granted"
        using secret(2) less.prems(2) unfolding key by (auto simp: granted_active_def secret_grant_active_def entry_active_def)
      obtain g s2 where give: "grant_secret_use io_ok (rn_grant_clock ?rd) (Some gid) b t (ar_item_name req) ''session'' (av_window av)
            (secret_relaxed req ''session'') s1 = (Inr g, s2)"
        and d2: "disk s2 = Some ((read_state d)\<lparr>v_secrets := put (secret_grant_key b t (ar_item_name req)) g (v_secrets d)\<rparr>)"
        and g: "always_active g"
        using session_secret_given [OF s1] by blast
      have "granted_active b t (requirement_key dn req # granted)
          ((read_state d)\<lparr>v_secrets := put (secret_grant_key b t (ar_item_name req)) g (v_secrets d)\<rparr>)"
        unfolding key using granted_active_secret [OF _ g, of b t granted "read_state d"] less.prems(2) by simp
      from less.hyps [OF batch_keys_shrink [OF f _ new] d2 this] secret(1)
      obtain s' where "authorize_loop sha rounds (Suc i) b t av reqs (requirement_key dn req # granted) s2 = (None, s')" by auto
      with authorize_loop_next(2) [of sha rounds i, OF batch f new secret(1), of av b t g s2] give assms(3) show ?thesis by (simp add: io gid)
    qed
  qed
qed


section \<open>Properties of the batch\<close>

lemma released_within:
  assumes "authorize_references sha rounds b t refs av s = (Inr items, s')" and "disk s = Some d"
  shows "list_all2 (\<lambda>rp it. reference_item (snd rp) (ra_reference (fst rp)) (mem s) = Inr it
          \<and> (it_kind it = ''file'' \<and> ra_operation (fst rp) = ''run'') = False) refs items
    \<and> (\<exists>n v. within_approval av b t d v
          \<and> all_pass sha (rounds n) (if refs = [] then [list_request b t] else map2 (\<lambda>rp it. batch_request b t (fst rp) it) refs items) v)"
proof -
  obtain xs where prep: "prepare_references b t (mem s) refs = Inr xs"
    and loop: "authorize_loop sha rounds 0 b t av (if xs = [] then [list_request b t] else map snd xs) [] s = (None, s')"
    and items: "items = map fst xs"
    using assms(1) by (auto simp: authorize_references_def split: sum.splits prod.splits option.splits)
  note all = prepare_references_Inr [OF prep]
  then have len: "length xs = length refs" by (simp add: list_all2_lengthD)
  have "map snd xs = map2 (\<lambda>rp it. batch_request b t (fst rp) it) refs (map fst xs)"
    using all by (auto simp: list_all2_conv_all_nth intro!: nth_equalityI)
  moreover have "xs = [] \<longleftrightarrow> refs = []" using len by auto
  ultimately have reqs: "(if xs = [] then [list_request b t] else map snd xs)
    = (if refs = [] then [list_request b t] else map2 (\<lambda>rp it. batch_request b t (fst rp) it) refs items)" unfolding items by simp
  have "list_all2 (\<lambda>rp it. reference_item (snd rp) (ra_reference (fst rp)) (mem s) = Inr it
      \<and> (it_kind it = ''file'' \<and> ra_operation (fst rp) = ''run'') = False) refs items"
    unfolding items list.rel_map using all by (rule list_all2_mono) auto
  with authorize_loop_within [OF loop assms(2) within_approval_refl] show ?thesis unfolding reqs by (intro conjI)
qed


definition sample_kv :: item where
  "sample_kv = \<lparr>it_classification = ''confidential'', it_id = ''i1'', it_name = ''db'', it_kind = ''kv'', it_value = ''hunter2'',
     it_metadata = \<lparr>im_notes = [], im_tags = [], im_project_bindings = [], im_human_label = [], im_policy = ''session''\<rparr>,
     it_created_at = 0, it_updated_at = 0, it_deleted_at = None\<rparr>"

definition broker_binding :: binding where
  "broker_binding = \<lparr>bd_id = ''b'', bd_canonical_root = ''/p'', bd_aliases = [(''secret_01'', ''db'')],
     bd_default_capture_policy = [], bd_hook_installed = False\<rparr>"

definition broker_project :: project where
  "broker_project = \<lparr>pj_exact = Some ''/p'', pj_root = Some ''/p'', pj_manifest = (\<lambda>_. NoManifest)\<rparr>"

definition sample_broker_sys :: sys where
  "sample_broker_sys = (let v = empty_vault\<lparr>v_items := [(''i1'', sample_kv)], v_bindings := [(''/p'', broker_binding)]\<rparr>
     in \<lparr>mem = v, disk = Some v, trail = []\<rparr>)"

definition sample_round :: "nat \<Rightarrow> round" where
  "sample_round i = \<lparr>rn_io = io_ok, rn_clock = (\<lambda>_ _. 5), rn_now = (\<lambda>_. 6), rn_grant_io = io_ok, rn_grant_clock = (\<lambda>_. 4),
     rn_random = Some [char_of (i + 97)]\<rparr>"

definition sample_refs :: "(reference_access \<times> project) list" where
  "sample_refs = [(\<lparr>ra_reference = ''secret_01'', ra_operation = ''run''\<rparr>, broker_project)]"

definition session_approval :: approval where
  "session_approval = \<lparr>av_project = ''session'', av_secret = ''session'', av_convenience = [], av_window = 0\<rparr>"

lemma approved_references_pass:
  assumes "prepare_references b t (mem s) refs = Inr xs" and "disk s \<noteq> None" and "all_well rounds"
    and "av_project av = ''session''" and "av_secret av = ''session''"
    and "\<forall>rp\<in>set refs. ra_operation (fst rp) \<in> {''run'', ''inject''}"
    and "\<forall>x\<in>set xs. im_policy (it_metadata (fst x)) \<in> {'''', ''auto'', ''session'', ''access''}"
  shows "\<exists>s'. authorize_references sha rounds b t refs av s = (Inr (map fst xs), s')"
proof -
  let ?reqs = "if xs = [] then [list_request b t] else map snd xs"
  have "plain_request b t (snd x)" if x: "x \<in> set xs" for x
  proof -
    note all = prepare_references_Inr [OF assms(1), unfolded list_all2_conv_all_nth]
    from x obtain i where i: "i < length xs" "x = xs ! i" by (auto simp: in_set_conv_nth)
    with all have rp: "refs ! i \<in> set refs" "snd x = batch_request b t (fst (refs ! i)) (fst x)" by auto
    have "ra_operation (fst (refs ! i)) \<in> {''run'', ''inject''}" and "im_policy (it_metadata (fst x)) \<in> {'''', ''auto'', ''session'', ''access''}"
      using assms(6,7) rp(1) x by blast+
    then show ?thesis unfolding plain_request_def rp(2) batch_request_def by auto
  qed
  moreover have "plain_request b t (list_request b t)" by (simp add: plain_request_def list_request_def)
  ultimately have "\<forall>r\<in>set ?reqs. plain_request b t r" by auto
  moreover obtain d where "disk s = Some d" using assms(2) by auto
  moreover have "granted_active b t [] d" by (simp add: granted_active_def)
  moreover have "?reqs \<noteq> []" by simp
  ultimately obtain s' where "authorize_loop sha rounds 0 b t av ?reqs [] s = (None, s')"
    using approved_loop_passes [OF assms(3-5), of ?reqs b t s d "[]" sha 0] by blast
  then show ?thesis using assms(1) by (simp add: authorize_references_def)
qed

text \<open>C11: An approved call succeeds. When every reference resolves, the items carry known policies, the file
  system works and the caller approves both the project and the secrets for the session, the batch is released
  whatever grants, spent or not, the vault holds already and whatever the clock says.\<close>

theorem approved_references_released:
  assumes "prepare_references b t (mem s) refs = Inr xs" and "disk s \<noteq> None" and "all_well rounds"
    and "av_project av = ''session''" and "av_secret av = ''session''"
    and "\<forall>rp\<in>set refs. ra_operation (fst rp) \<in> {''run'', ''inject''}"
    and "\<forall>x\<in>set xs. im_policy (it_metadata (fst x)) \<in> {'''', ''auto'', ''session'', ''access''}"
  shows "fst (authorize_references sha rounds b t refs av s) = Inr (map fst xs)"
  using approved_references_pass [OF assms, of sha] by auto

lemma sample_prepared:
  "prepare_references ''b'' ''t'' (mem sample_broker_sys) sample_refs
     = Inr [(sample_kv, batch_request ''b'' ''t'' \<lparr>ra_reference = ''secret_01'', ra_operation = ''run''\<rparr> sample_kv)]"
  by code_simp

lemma approved_references_released_witness:
  "fst (authorize_references (\<lambda>s. s) sample_round ''b'' ''t'' sample_refs session_approval sample_broker_sys) = Inr [sample_kv]"
proof -
  have "disk sample_broker_sys \<noteq> None" by (simp add: sample_broker_sys_def Let_def)
  moreover have "all_well sample_round" by (simp add: all_well_def sample_round_def)
  ultimately show ?thesis
    using approved_references_released [OF sample_prepared, of sample_round session_approval "\<lambda>s. s"]
    by (simp add: session_approval_def sample_refs_def) (simp add: sample_kv_def)
qed

lemma sample_released:
  "\<exists>s'. authorize_references (\<lambda>s. s) sample_round ''b'' ''t'' sample_refs session_approval sample_broker_sys = (Inr [sample_kv], s')"
proof -
  have "disk sample_broker_sys \<noteq> None" by (simp add: sample_broker_sys_def Let_def)
  moreover have "all_well sample_round" by (simp add: all_well_def sample_round_def)
  ultimately show ?thesis
    using approved_references_pass [OF sample_prepared, of sample_round session_approval "\<lambda>s. s"]
    by (simp add: session_approval_def sample_refs_def) (simp add: sample_kv_def)
qed



section \<open>Captures of new items\<close>

text \<open>The session's lease is of another scope than once, or marked used in memory and in the file.\<close>

definition lease_spent :: "string \<Rightarrow> string \<Rightarrow> sys \<Rightarrow> bool" where
  "lease_spent b t s \<longleftrightarrow> (case map_of (v_leases (mem s)) (lease_key b t) of
     None \<Rightarrow> False
   | Some l \<Rightarrow> if g_scope l = ''once'' then g_used_at l \<noteq> None \<and> disk s = Some (mem s) else True)"

lemma capture_decision:
  "authorize_current sha clock (capture_request b t) v =
     (if \<not> project_lease_active (clock 0) b t v then prompt ''project_lease_required'' ''project_lease''
      else prompt ''write_grant_required'' ''write_grant'')"
  by (simp add: authorize_current_def capture_request_def Let_def)

lemma capture_request_fields [simp]:
  "ar_binding_id (capture_request b t) = b" "ar_session_token (capture_request b t) = t"
  by (simp_all add: capture_request_def)

lemma finish_capture_None:
  assumes "finish_capture sha rd (capture_request b t) w (authorize_current sha clock (capture_request b t) (mem s)) s = (None, s')"
  shows "w \<and> lease_spent b t s'"
proof -
  have act: "project_lease_active (clock 0) b t (mem s)" and w: w
    using assms by (auto simp: finish_capture_def capture_decision split: if_splits)
  then obtain l where l: "map_of (v_leases (mem s)) (lease_key b t) = Some l"
    by (auto simp: project_lease_active_def entry_active_def split: option.splits)
  have "consume_project_lease (rn_io rd) (rn_now rd 0) b t s = (None, s')"
    using assms act w by (auto simp: finish_capture_def capture_decision split: prod.splits option.splits)
  then have "lease_spent b t s'"
    using l by (auto simp: consume_project_lease_def mark_used_def lease_spent_def split: if_splits dest!: persist_and_log_okD)
  with w show ?thesis by simp
qed

text \<open>C23: A new item is captured only with the write grant and a lease, and a once lease is spent by it. When the
  capture of a name that has no item is let through, the caller had given the write grant, and the handle ends
  with a lease for this binding and session that is either not of scope once or marked used, in memory and in
  the file.\<close>

theorem new_capture_spends_lease:
  assumes "get_item name (mem s) = None" and "authorize_capture sha rounds b t name av w s = (None, s')"
  shows "w \<and> lease_spent b t s'"
proof -
  let ?d = "\<lambda>v. authorize_current sha (rn_clock (rounds 0) 0) (capture_request b t) v"
  have no: "\<not> ad_allowed (?d v)" and prompts: "ad_requires_prompt (?d v)" for v by (simp_all add: capture_decision)
  show ?thesis
  proof (cases "required_action (?d (mem s)) = ''project_lease''")
    case True
    with assms no prompts obtain s1 where "finish_capture sha (rounds 1) (capture_request b t) w
        (authorize_current sha (rn_clock (rounds 1) 0) (capture_request b t) (mem s1)) s1 = (None, s')"
      by (auto simp: authorize_capture_def Let_def split: option.splits prod.splits)
    then show ?thesis by (rule finish_capture_None)
  next
    case False
    with assms no prompts have "finish_capture sha (rounds 1) (capture_request b t) w (?d (mem s)) s = (None, s')"
      by (auto simp: authorize_capture_def Let_def)
    then show ?thesis by (rule finish_capture_None)
  qed
qed

definition once_lease_sys :: sys where
  "once_lease_sys = \<lparr>mem = sample_vault, disk = Some sample_vault, trail = []\<rparr>"

definition no_approval :: approval where
  "no_approval = \<lparr>av_project = [], av_secret = [], av_convenience = [], av_window = 0\<rparr>"

lemma new_capture_spends_lease_witness:
  "lease_spent ''b'' ''t'' (snd (authorize_capture (\<lambda>s. s) sample_round ''b'' ''t'' ''new'' no_approval True once_lease_sys))"
proof -
  have no_item: "get_item ''new'' (mem once_lease_sys) = None" by code_simp
  have "fst (authorize_capture (\<lambda>s. s) sample_round ''b'' ''t'' ''new'' no_approval True once_lease_sys) = None" by code_simp
  then obtain s' where run: "authorize_capture (\<lambda>s. s) sample_round ''b'' ''t'' ''new'' no_approval True once_lease_sys = (None, s')"
    by (metis prod.collapse)
  from new_capture_spends_lease [OF no_item run] show ?thesis by (simp add: run)
qed


end
