(* ===== verification/Execute.thy ===== *)
theory Execute
  imports Broker
begin

text \<open>
  Running a command with secrets: \<^verbatim>\<open>internal/brokerops/execute.go\<close>. The process runner is a parameter,
  as are the digests of the review signature. The manifest of \<open>ExpandManifestTarget\<close> comes loaded.
\<close>

record execution_target =
  xt_expansion :: target_expansion
  xt_env_refs :: "string gomap"
  xt_file_refs :: "string gomap"
  xt_literal_env :: "string gomap"
  xt_command :: "string list"

record runner_input =
  ri_project_root :: string
  ri_command :: "string list"
  ri_env :: "string gomap"
  ri_files :: "string gomap"

text \<open>\<open>'w\<close> is the error after \<open>AuthorizeWrapErr\<close>, \<open>'e\<close> the runner's error.\<close>

datatype ('w, 'e) execution_error =
    EnvFailed env_error
  | CombinedMappings
  | ManifestFailed manifest_error
  | VisibleDelivery string
  | ReviewRequired string manifest_drift
  | ReviewFailed store_error
  | AuthorizeFailed 'w
  | IncompleteReferences
  | RunnerFailed 'e

record execution_request =
  xq_binding_id :: string
  xq_project_root :: string
  xq_session_token :: string
  xq_command :: "string list"
  xq_env_refs :: "string gomap"
  xq_file_refs :: "string gomap"
  xq_literal_env :: "string gomap"
  xq_expansion :: target_expansion

definition no_expansion :: target_expansion where
  "no_expansion = \<lparr>te_name = [], te_root = [], te_hash = [], te_command = [], te_literal_env = [], te_env = [], te_files = [],
     te_xcconfig = [], te_outputs = [], te_refs = [], te_destinations = [], te_credential_sets = []\<rparr>"

definition expand_execution_target ::
    "(repo_manifest \<times> string) option \<Rightarrow> string \<Rightarrow> string gomap \<Rightarrow> string gomap \<Rightarrow> string list
      \<Rightarrow> ('w, 'e) execution_error + execution_target" where
  "expand_execution_target loaded target env files command =
     (if target = [] then
        Inr \<lparr>xt_expansion = no_expansion, xt_env_refs = env, xt_file_refs = files, xt_literal_env = [], xt_command = command\<rparr>
      else if env \<noteq> [] \<or> files \<noteq> [] then Inl CombinedMappings
      else (case expand_target loaded target of
          Inl e \<Rightarrow> Inl (ManifestFailed e)
        | Inr x \<Rightarrow>
            if te_xcconfig x \<noteq> [] \<or> te_outputs x \<noteq> [] then Inl (VisibleDelivery target)
            else Inr \<lparr>xt_expansion = x, xt_env_refs = te_env x, xt_file_refs = te_files x, xt_literal_env = te_literal_env x,
                      xt_command = (if command = [] \<and> te_command x \<noteq> [] then te_command x else command)\<rparr>))"

text \<open>\<open>None\<close> for the handle's vault is the nil handle.\<close>

definition require_reviewed_target ::
    "(string list \<Rightarrow> string) \<Rightarrow> (string gomap \<Rightarrow> string) \<Rightarrow> string option \<Rightarrow> target_expansion \<Rightarrow> vault option
      \<Rightarrow> ('w, 'e) execution_error option" where
  "require_reviewed_target hash hash_map canonical x v =
     (if te_name x = [] then None
      else (case v of
          None \<Rightarrow> Some (ReviewRequired (te_name x) no_drift)
        | Some v \<Rightarrow> (case target_drift hash hash_map canonical x v of
            Inl e \<Rightarrow> Some (ReviewFailed e)
          | Inr drift \<Rightarrow> if \<not> dr_known drift \<or> dr_changed drift then Some (ReviewRequired (te_name x) drift) else None)))"

definition review_message :: "(string \<Rightarrow> string) \<Rightarrow> string \<Rightarrow> manifest_drift \<Rightarrow> string" where
  "review_message quote name drift =
     (let target = (if name = [] then ''(unknown)'' else name);
          reason = (if dr_changed drift then ''requires renewed local review after manifest changes'' else ''requires local review'')
      in ''manifest target '' @ quote target @ '' '' @ reason
         @ ''; inspect the value-free target shape, then run `hasp project target review '' @ target @ ''`'')"

text \<open>The references of a request in the order of their sorted destinations.\<close>

definition execution_refs :: "(string \<Rightarrow> project) \<Rightarrow> string gomap \<Rightarrow> string gomap \<Rightarrow> (reference_access \<times> project) list" where
  "execution_refs projects env files =
     map (\<lambda>n. (\<lparr>ra_reference = look [] env n, ra_operation = ''run''\<rparr>, projects n)) (env_names env)
     @ map (\<lambda>n. (\<lparr>ra_reference = look [] files n, ra_operation = ''inject''\<rparr>, projects n)) (env_names files)"

definition assign_values :: "string list \<Rightarrow> item list \<Rightarrow> string gomap \<Rightarrow> string gomap" where
  "assign_values names items m = fold (\<lambda>(n, it). put n (it_value it)) (zip names items) m"

definition execute ::
    "(string \<Rightarrow> string) \<Rightarrow> (string list \<Rightarrow> string) \<Rightarrow> (string gomap \<Rightarrow> string) \<Rightarrow> string option \<Rightarrow> (nat \<Rightarrow> round) \<Rightarrow> (string \<Rightarrow> project)
      \<Rightarrow> (broker_error \<Rightarrow> 'w) \<Rightarrow> (item list \<Rightarrow> runner_input \<Rightarrow> runner_input) \<Rightarrow> (runner_input \<Rightarrow> 'e + 'r) \<Rightarrow> approval
      \<Rightarrow> execution_request \<Rightarrow> sys \<Rightarrow> (('w, 'e) execution_error + 'r \<times> item list) \<times> sys" where
  "execute sha hash hash_map canonical rounds projects wrap configure runner av q s =
     (case validate_env (xq_env_refs q) (xq_file_refs q) (xq_literal_env q) of
        Some e \<Rightarrow> (Inl (EnvFailed e), s)
      | None \<Rightarrow>
     (case require_reviewed_target hash hash_map canonical (xq_expansion q) (Some (mem s)) of
        Some e \<Rightarrow> (Inl e, s)
      | None \<Rightarrow>
          let env_ns = env_names (xq_env_refs q); file_ns = env_names (xq_file_refs q);
              refs = execution_refs projects (xq_env_refs q) (xq_file_refs q)
          in (case authorize_references sha rounds (xq_binding_id q) (xq_session_token q) refs av s of
                (Inl e, s1) \<Rightarrow> (Inl (AuthorizeFailed (wrap e)), s1)
              | (Inr items, s1) \<Rightarrow>
                  if length items \<noteq> length refs then (Inl IncompleteReferences, s1)
                  else
                    let input = configure items
                          \<lparr>ri_project_root = execution_root (xq_expansion q) (xq_project_root q), ri_command = xq_command q,
                           ri_env = assign_values env_ns items (xq_literal_env q),
                           ri_files = assign_values file_ns (drop (length env_ns) items) []\<rparr>
                    in (case runner input of Inl e \<Rightarrow> (Inl (RunnerFailed e), s1) | Inr r \<Rightarrow> (Inr (r, items), s1)))))"

section \<open>What is assigned\<close>


lemma assign_values_other: "n \<notin> set names \<Longrightarrow> map_of (assign_values names items m) n = map_of m n"
  unfolding assign_values_def
proof (induction names arbitrary: items m)
  case (Cons a names)
  then show ?case by (cases items) auto
qed simp

lemma assign_values_nth:
  "distinct names \<Longrightarrow> i < length names \<Longrightarrow> i < length items \<Longrightarrow>
     map_of (assign_values names items m) (names ! i) = Some (it_value (items ! i))"
proof (induction names arbitrary: items m i)
  case (Cons a names)
  then obtain it its where items: "items = it # its" by (cases items) auto
  have step: "assign_values (a # names) (it # its) m = assign_values names its (put a (it_value it) m)"
    by (simp add: assign_values_def)
  show ?case
  proof (cases i)
    case 0
    have "a \<notin> set names" using Cons.prems(1) by simp
    from assign_values_other [OF this] 0 show ?thesis unfolding items step by simp
  next
    case (Suc j)
    with Cons show ?thesis unfolding items step by simp
  qed
qed simp

lemma distinct_env_names: "wf_map m \<Longrightarrow> distinct (env_names m)"
  by (simp add: env_names_def wf_map_def)


text \<open>The value a destination must get: the item of its reference, or what was there before.\<close>

definition expected_values :: "(string \<Rightarrow> project) \<Rightarrow> string gomap \<Rightarrow> string gomap \<Rightarrow> vault \<Rightarrow> string \<Rightarrow> string option" where
  "expected_values projects refs before v n =
     (case map_of refs n of
        Some ref \<Rightarrow> (case reference_item (projects n) ref v of Inr it \<Rightarrow> Some (it_value it) | Inl _ \<Rightarrow> None)
      | None \<Rightarrow> map_of before n)"

lemma assigned_as_expected:
  assumes "wf_map refs"
    and "list_all2 (\<lambda>n it. reference_item (projects n) (look [] refs n) v = Inr it) (env_names refs) items"
  shows "map_of (assign_values (env_names refs) items before) = expected_values projects refs before v"
proof
  fix n
  show "map_of (assign_values (env_names refs) items before) n = expected_values projects refs before v n"
  proof (cases "map_of refs n")
    case None
    then have "n \<notin> set (env_names refs)" by (simp add: map_of_eq_None_iff)
    from assign_values_other [OF this] None show ?thesis by (simp add: expected_values_def)
  next
    case (Some ref)
    then have "n \<in> set (env_names refs)" by (metis map_of_eq_None_iff not_None_eq set_env_names)
    then obtain i where i: "i < length (env_names refs)" "n = env_names refs ! i" by (metis in_set_conv_nth)
    with assms(2) have "i < length items" and it: "reference_item (projects n) (look [] refs n) v = Inr (items ! i)"
      by (simp_all add: list_all2_conv_all_nth)
    from assign_values_nth [OF distinct_env_names [OF assms(1)] i(1) this(1)] i(2) Some it
    show ?thesis by (simp add: expected_values_def look_def)
  qed
qed

lemma execution_refs_split:
  assumes "list_all2 (\<lambda>rp it. reference_item (snd rp) (ra_reference (fst rp)) v = Inr it \<and> K rp it) (execution_refs projects env files) items"
  shows "list_all2 (\<lambda>n it. reference_item (projects n) (look [] env n) v = Inr it) (env_names env) (take (length (env_names env)) items)"
    and "list_all2 (\<lambda>n it. reference_item (projects n) (look [] files n) v = Inr it) (env_names files) (drop (length (env_names env)) items)"
  using assms by (auto simp: execution_refs_def list_all2_append1 list.rel_map elim!: list_all2_mono dest: list_all2_lengthD)

lemma zip_take_length: "zip xs (take (length xs) ys) = zip xs ys"
proof (induction xs arbitrary: ys)
  case (Cons x xs)
  then show ?case by (cases ys) simp_all
qed simp

lemma assign_values_take: "assign_values names (take (length names) items) m = assign_values names items m"
  by (simp add: assign_values_def zip_take_length)

section \<open>Property\<close>

text \<open>C8: The process gets exactly what was asked for. A run that succeeds started the runner with the command of the
  request in the root of the reviewed target; each variable and each file has the value of the item that its
  own reference resolves to, every other variable is a literal of the request, and the target had a review
  that no later change of the manifest invalidated.\<close>

theorem execute_delivers:
  assumes "execute sha hash hash_map canonical rounds projects wrap (\<lambda>_ x. x) runner av q s = (Inr (r, items), s')"
    and "disk s = Some d" and "wf_map (xq_env_refs q)" and "wf_map (xq_file_refs q)"
  shows "\<exists>x. runner x = Inr r \<and> ri_command x = xq_command q
    \<and> ri_project_root x = execution_root (xq_expansion q) (xq_project_root q)
    \<and> map_of (ri_env x) = expected_values projects (xq_env_refs q) (xq_literal_env q) (mem s)
    \<and> map_of (ri_files x) = expected_values projects (xq_file_refs q) [] (mem s)
    \<and> (te_name (xq_expansion q) \<noteq> [] \<longrightarrow> (\<exists>drift. target_drift hash hash_map canonical (xq_expansion q) (mem s) = Inr drift
          \<and> dr_known drift \<and> \<not> dr_changed drift))"
proof -
  let ?env = "xq_env_refs q" and ?files = "xq_file_refs q"
  have review: "require_reviewed_target hash hash_map canonical (xq_expansion q) (Some (mem s)) = (None :: ('a, 'b) execution_error option)"
    using assms(1) by (auto simp: execute_def split: option.splits)
  obtain s1 where auth: "authorize_references sha rounds (xq_binding_id q) (xq_session_token q) (execution_refs projects ?env ?files) av s = (Inr items, s1)"
    and runner: "runner \<lparr>ri_project_root = execution_root (xq_expansion q) (xq_project_root q), ri_command = xq_command q,
      ri_env = assign_values (env_names ?env) items (xq_literal_env q),
      ri_files = assign_values (env_names ?files) (drop (length (env_names ?env)) items) []\<rparr> = Inr r"
    using assms(1) review by (auto simp: execute_def Let_def split: option.splits prod.splits sum.splits if_splits)
  note all = conjunct1 [OF released_within [OF auth assms(2)]]
  note env = assigned_as_expected [OF assms(3) execution_refs_split(1) [OF all], unfolded assign_values_take]
  note files = assigned_as_expected [OF assms(4) execution_refs_split(2) [OF all]]
  have "te_name (xq_expansion q) \<noteq> [] \<longrightarrow> (\<exists>drift. target_drift hash hash_map canonical (xq_expansion q) (mem s) = Inr drift
      \<and> dr_known drift \<and> \<not> dr_changed drift)"
    using review by (auto simp: require_reviewed_target_def split: sum.splits if_splits)
  with runner env files show ?thesis by (intro exI conjI) auto
qed


definition sample_execution :: execution_request where
  "sample_execution = \<lparr>xq_binding_id = ''b'', xq_project_root = ''/p'', xq_session_token = ''t'', xq_command = [''env''],
     xq_env_refs = [(''TOKEN'', ''secret_01'')], xq_file_refs = [], xq_literal_env = [(''MODE'', ''dev'')], xq_expansion = no_expansion\<rparr>"

lemma execute_delivers_witness:
  "\<exists>x :: runner_input. map_of (ri_env x) ''TOKEN'' = Some ''hunter2'' \<and> map_of (ri_env x) ''MODE'' = Some ''dev'' \<and> ri_command x = [''env'']"
proof -
  let ?run = "execute (\<lambda>s. s) concat (\<lambda>_. []) None sample_round (\<lambda>_. broker_project) (\<lambda>e. e) (\<lambda>_ x. x)
    (\<lambda>x. Inr x :: unit + runner_input) session_approval sample_execution sample_broker_sys"
  have refs: "execution_refs (\<lambda>_. broker_project) (xq_env_refs sample_execution) (xq_file_refs sample_execution) = sample_refs"
  proof -
    have "env_names (xq_env_refs sample_execution) = [''TOKEN'']" "env_names (xq_file_refs sample_execution) = []" by code_simp+
    then show ?thesis by (simp add: execution_refs_def sample_refs_def) (simp add: sample_execution_def look_def)
  qed
  have valid: "validate_env (xq_env_refs sample_execution) (xq_file_refs sample_execution) (xq_literal_env sample_execution) = None"
    by code_simp
  obtain s' where auth: "authorize_references (\<lambda>s. s) sample_round ''b'' ''t'' sample_refs session_approval sample_broker_sys = (Inr [sample_kv], s')"
    using sample_released by blast
  have ids: "xq_binding_id sample_execution = ''b''" "xq_session_token sample_execution = ''t''" "te_name (xq_expansion sample_execution) = []"
    by (simp_all add: sample_execution_def no_expansion_def)
  have "\<exists>r. ?run = (Inr (r, [sample_kv]), s')"
    using auth by (simp add: execute_def valid require_reviewed_target_def ids refs Let_def) (simp add: sample_refs_def)
  then obtain r where run: "?run = (Inr (r, [sample_kv]), s')" by blast
  have d: "disk sample_broker_sys = Some (mem sample_broker_sys)" by (simp add: sample_broker_sys_def Let_def)
  have wf: "wf_map (xq_env_refs sample_execution)" "wf_map (xq_file_refs sample_execution)"
    by (simp_all add: sample_execution_def wf_map_def)
  have "expected_values (\<lambda>_. broker_project) (xq_env_refs sample_execution) (xq_literal_env sample_execution) (mem sample_broker_sys) ''TOKEN'' = Some ''hunter2''"
    "expected_values (\<lambda>_. broker_project) (xq_env_refs sample_execution) (xq_literal_env sample_execution) (mem sample_broker_sys) ''MODE'' = Some ''dev''"
    by code_simp+
  moreover from execute_delivers [OF run d wf] obtain x :: runner_input where "ri_command x = xq_command sample_execution"
    "map_of (ri_env x) = expected_values (\<lambda>_. broker_project) (xq_env_refs sample_execution) (xq_literal_env sample_execution) (mem sample_broker_sys)"
    by blast
  moreover have "xq_command sample_execution = [''env'']" by (simp add: sample_execution_def)
  ultimately show ?thesis by (intro exI [of _ x]) simp
qed

end
