(* ===== verification/Auth.thy ===== *)
theory Auth
  imports Prelude
begin

text \<open>
  Signed requests: \<^verbatim>\<open>internal/httpapi/auth.go\<close>. The library functions are the fields of a \<open>crypto_lib\<close>. A request
  reads the clock twice: at the check of its date and, after its body has been read, in the nonce cache, whose
  mutex orders the requests.
\<close>

section \<open>State\<close>

record crypto_lib =
  cl_parse_date :: "string \<Rightarrow> time option"
  cl_sha256_hex :: "string \<Rightarrow> string"
  cl_hmac :: "string \<Rightarrow> string \<Rightarrow> string"
  cl_b64_decode :: "string \<Rightarrow> string option"

record validator =
  va_key :: string
  va_skew :: duration
  va_max_body :: int
  va_ttl :: duration
  va_entries :: "time gomap"

record validator_options =
  vo_skew :: duration
  vo_ttl :: duration
  vo_max_body :: int

datatype auth_error =
    KeyRequired
  | MissingDate | MissingNonce | MissingAuthorization
  | MalformedDate | MalformedNonce | MalformedAuthorization
  | DateSkew | InvalidSignature | NonceReplay
  | BodyTooLarge | BodyRead

text \<open>The body is absent, or has a declared length and the bytes its reader delivers, \<open>None\<close> for a read error.\<close>

datatype request_body = NoBody | Body int "string option"

record http_request =
  hq_date :: string
  hq_nonce :: string
  hq_authorization :: string
  hq_method :: string
  hq_url :: "(string \<times> string) option"
  hq_body :: request_body

definition default_skew :: duration where
  "default_skew = 60 * second"

definition default_nonce_ttl :: duration where
  "default_nonce_ttl = 5 * minute"

definition default_max_body :: int where
  "default_max_body = 2 ^ 20"

definition positive_or :: "int \<Rightarrow> int \<Rightarrow> int" where
  "positive_or x d = (if x \<le> 0 then d else x)"

definition new_validator :: "string \<Rightarrow> validator_options \<Rightarrow> auth_error + validator" where
  "new_validator key opts =
     (if key = [] then Inl KeyRequired
      else Inr \<lparr>va_key = key, va_skew = positive_or (vo_skew opts) default_skew,
                va_max_body = positive_or (vo_max_body opts) default_max_body,
                va_ttl = positive_or (vo_ttl opts) default_nonce_ttl, va_entries = []\<rparr>)"

section \<open>Validation\<close>

definition hex_char :: "char \<Rightarrow> bool" where
  "hex_char c = (let n = of_char c :: nat in 48 \<le> n \<and> n \<le> 57 \<or> 65 \<le> n \<and> n \<le> 70 \<or> 97 \<le> n \<and> n \<le> 102)"

definition authorization_prefix :: string where
  "authorization_prefix = ''HASP-HMAC-SHA256 sig=''"

definition parse_authorization_header :: "crypto_lib \<Rightarrow> string \<Rightarrow> auth_error + string" where
  "parse_authorization_header lib value =
     (if \<not> prefix authorization_prefix value then Inl MalformedAuthorization
      else
        let signature = trim (drop (length authorization_prefix) value) in
        if signature = [] then Inl MalformedAuthorization
        else (case cl_b64_decode lib signature of
            None \<Rightarrow> Inl MalformedAuthorization
          | Some decoded \<Rightarrow> if length decoded \<noteq> 32 then Inl MalformedAuthorization else Inr decoded))"

text \<open>At most one byte more than the limit is read.\<close>

definition request_body_hash :: "crypto_lib \<Rightarrow> request_body \<Rightarrow> int \<Rightarrow> auth_error + string" where
  "request_body_hash lib body max_bytes =
     (case body of
        NoBody \<Rightarrow> Inr (cl_sha256_hex lib [])
      | Body declared content \<Rightarrow>
          let limit = positive_or max_bytes default_max_body in
          if limit < declared then Inl BodyTooLarge
          else (case content of
              None \<Rightarrow> Inl BodyRead
            | Some bytes \<Rightarrow>
                let got = take (nat (limit + 1)) bytes in
                if limit < int (length got) then Inl BodyTooLarge else Inr (cl_sha256_hex lib got)))"

definition request_target :: "(string \<times> string) option \<Rightarrow> string" where
  "request_target u =
     (case u of
        None \<Rightarrow> []
      | Some (escaped, query) \<Rightarrow>
          let path = (if escaped = [] then ''/'' else escaped) in if query = [] then path else path @ ''?'' @ query)"

definition signing_payload :: "string \<Rightarrow> string \<Rightarrow> string \<Rightarrow> string \<Rightarrow> string \<Rightarrow> string" where
  "signing_payload date nonce method path body_hash = join [CHR 0x0A] [date, nonce, method, path, body_hash]"

definition compute_signature :: "crypto_lib \<Rightarrow> string \<Rightarrow> string \<Rightarrow> string \<Rightarrow> string \<Rightarrow> string \<Rightarrow> string \<Rightarrow> string" where
  "compute_signature lib key date nonce method path body_hash = cl_hmac lib key (signing_payload date nonce method path body_hash)"

definition remember :: "time \<Rightarrow> string \<Rightarrow> validator \<Rightarrow> auth_error option \<times> validator" where
  "remember now nonce v =
     (let cutoff = now - va_ttl v;
          entries = keep (\<lambda>_ seen_at. \<not> seen_at < cutoff) (va_entries v)
      in if (case map_of entries nonce of None \<Rightarrow> False | Some seen_at \<Rightarrow> \<not> seen_at < cutoff)
         then (Some NonceReplay, v\<lparr>va_entries := entries\<rparr>)
         else (None, v\<lparr>va_entries := put nonce now entries\<rparr>))"

text \<open>\<open>checked\<close> is the clock at the check of the date, \<open>now\<close> in the nonce cache.\<close>

definition validate :: "crypto_lib \<Rightarrow> time \<Rightarrow> time \<Rightarrow> http_request \<Rightarrow> validator \<Rightarrow> auth_error option \<times> validator" where
  "validate lib checked now req v =
     (let date = trim (hq_date req); nonce = trim (hq_nonce req); auth = trim (hq_authorization req) in
      if date = [] then (Some MissingDate, v)
      else (case cl_parse_date lib date of
          None \<Rightarrow> (Some MalformedDate, v)
        | Some request_time \<Rightarrow>
            let skew = time_sub request_time checked in
            if va_skew v < skew \<or> skew < - va_skew v then (Some DateSkew, v)
            else if nonce = [] then (Some MissingNonce, v)
            else if \<not> list_all hex_char nonce \<or> odd (length nonce) \<or> length nonce \<noteq> 32 then (Some MalformedNonce, v)
            else if auth = [] then (Some MissingAuthorization, v)
            else (case parse_authorization_header lib auth of
                Inl e \<Rightarrow> (Some e, v)
              | Inr signature \<Rightarrow>
                  (case request_body_hash lib (hq_body req) (va_max_body v) of
                     Inl e \<Rightarrow> (Some e, v)
                   | Inr body_hash \<Rightarrow>
                       if signature \<noteq> compute_signature lib (va_key v) date nonce (hq_method req) (request_target (hq_url req)) body_hash
                       then (Some InvalidSignature, v)
                       else remember now nonce v))))"

text \<open>The middleware: the error envelope, or the next handler.\<close>

datatype served = ErrorEnvelope nat string string | Next

definition middleware :: "crypto_lib \<Rightarrow> time \<Rightarrow> time \<Rightarrow> http_request \<Rightarrow> validator \<Rightarrow> served \<times> validator" where
  "middleware lib checked now req v =
     (case validate lib checked now req v of
        (Some e, v') \<Rightarrow>
          (if e = BodyTooLarge then ErrorEnvelope 413 ''request_too_large'' ''Request Entity Too Large''
           else ErrorEnvelope 401 ''unauthorized'' ''Unauthorized'', v')
      | (None, v') \<Rightarrow> (Next, v'))"

section \<open>Facts\<close>

lemma remember_fields [simp]:
  "va_ttl (snd (remember now n v)) = va_ttl v" "va_skew (snd (remember now n v)) = va_skew v"
  by (simp_all add: remember_def Let_def)

lemma remember_wf: "wf_map (va_entries v) \<Longrightarrow> wf_map (va_entries (snd (remember now n v)))"
  by (simp add: remember_def Let_def wf_keep)

lemma remember_entry:
  assumes "wf_map (va_entries v)" and "fst (remember now n v) = None"
  shows "case map_of (va_entries v) n of None \<Rightarrow> True | Some t \<Rightarrow> t < now - va_ttl v"
    and "map_of (va_entries (snd (remember now n v))) n = Some now"
  using assms by (auto simp: remember_def Let_def map_of_keep split: option.splits if_splits)

lemma kept_entry:
  assumes "wf_map (va_entries v)" and "map_of (va_entries v) k = Some t" and "now - va_ttl v \<le> t" and "t \<le> now"
  shows "\<exists>t'. map_of (va_entries (snd (remember now n v))) k = Some t' \<and> t \<le> t' \<and> t' \<le> now"
  using assms by (auto simp: remember_def Let_def map_of_keep split: option.splits if_splits)

lemma validate_cases:
  obtains (rejected) e where "validate lib checked now req v = (Some e, v)"
  | (reached) request_time where "validate lib checked now req v = remember now (trim (hq_nonce req)) v"
      "cl_parse_date lib (trim (hq_date req)) = Some request_time"
      "time_sub request_time checked \<le> va_skew v" "- va_skew v \<le> time_sub request_time checked"
proof (cases "\<exists>e. validate lib checked now req v = (Some e, v)")
  case False
  then have "validate lib checked now req v = remember now (trim (hq_nonce req)) v \<and>
    (\<exists>rt. cl_parse_date lib (trim (hq_date req)) = Some rt \<and> time_sub rt checked \<le> va_skew v \<and> - va_skew v \<le> time_sub rt checked)"
    by (auto simp: validate_def Let_def not_less split: option.splits sum.splits if_splits)
  with reached show thesis by blast
qed (use rejected in blast)


lemma validate_state: "snd (validate lib checked now req v) = v \<or> snd (validate lib checked now req v) = snd (remember now (trim (hq_nonce req)) v)"
  by (rule validate_cases [of lib checked now req v]) simp_all

section \<open>Replays\<close>

text \<open>A history of requests, in the order in which they reach the nonce cache. The clock of the cache does not go
  back, and a request is in flight for at most \<open>delay\<close> between its two readings; other requests are impossible
  and get no answer.\<close>

record auth_run =
  rv_validator :: validator
  rv_last :: time

type_synonym auth_op = "time \<times> time \<times> http_request"

definition possible :: "duration \<Rightarrow> auth_op \<Rightarrow> auth_run \<Rightarrow> bool" where
  "possible delay x run = (case x of (checked, now, req) \<Rightarrow> rv_last run \<le> now \<and> checked \<le> now \<and> now \<le> checked + delay)"

definition validate_step :: "crypto_lib \<Rightarrow> duration \<Rightarrow> auth_op \<Rightarrow> auth_run \<Rightarrow> auth_error option option \<times> auth_run" where
  "validate_step lib delay x run =
     (if possible delay x run then
        (case x of (checked, now, req) \<Rightarrow>
           (case validate lib checked now req (rv_validator run) of (e, v) \<Rightarrow> (Some e, \<lparr>rv_validator = v, rv_last = now\<rparr>)))
      else (None, run))"

definition accepted_as :: "string \<Rightarrow> string \<Rightarrow> auth_op \<Rightarrow> auth_error option option \<Rightarrow> bool" where
  "accepted_as date nonce x r \<longleftrightarrow> r = Some None \<and> trim (hq_date (snd (snd x))) = date \<and> trim (hq_nonce (snd (snd x))) = nonce"

text \<open>Either the date has left the window for good or the cache holds the nonce.\<close>

definition used_up :: "time \<Rightarrow> duration \<Rightarrow> duration \<Rightarrow> string \<Rightarrow> auth_run \<Rightarrow> bool" where
  "used_up request_time skew delay nonce run \<longleftrightarrow> request_time + skew + delay < rv_last run
     \<or> (\<exists>t. map_of (va_entries (rv_validator run)) nonce = Some t \<and> request_time - skew \<le> t \<and> t \<le> rv_last run)"

definition guarded :: "duration \<Rightarrow> duration \<Rightarrow> auth_run \<Rightarrow> bool" where
  "guarded skew ttl run \<longleftrightarrow> wf_map (va_entries (rv_validator run)) \<and> va_skew (rv_validator run) = skew \<and> va_ttl (rv_validator run) = ttl"

lemma within_skew:
  assumes "time_sub t u \<le> skew" and "- skew \<le> time_sub t u" and "skew < 2 ^ 63 - 1" and "0 \<le> skew"
  shows "t - skew \<le> u" and "u \<le> t + skew"
  using assms by (auto simp: time_sub_def max_def min_def split: if_splits)

lemma validate_step_possible:
  "possible delay (checked, now, req) run \<Longrightarrow> validate_step lib delay (checked, now, req) run
     = (Some (fst (validate lib checked now req (rv_validator run))),
        \<lparr>rv_validator = snd (validate lib checked now req (rv_validator run)), rv_last = now\<rparr>)"
  by (simp add: validate_step_def split: prod.split)

lemma guarded_step:
  assumes "guarded skew ttl run"
  shows "guarded skew ttl (snd (validate_step lib delay x run))"
proof (cases "possible delay x run")
  case True
  obtain checked now req where x: "x = (checked, now, req)" using prod_cases3 by blast
  from True validate_state [of lib checked now req "rv_validator run"] assms remember_wf [of "rv_validator run" now "trim (hq_nonce req)"]
  show ?thesis by (auto simp: x validate_step_possible guarded_def)
qed (use assms in \<open>simp add: validate_step_def\<close>)

lemma used_up_step:
  assumes "guarded skew ttl run" and "used_up T skew delay nonce run" and "2 * skew + delay \<le> ttl"
  shows "used_up T skew delay nonce (snd (validate_step lib delay x run))"
proof (cases "possible delay x run")
  case True
  obtain checked now req where x: "x = (checked, now, req)" using prod_cases3 by blast
  let ?v = "rv_validator run"
  have later: "rv_last run \<le> now" using True by (simp add: possible_def x)
  let ?v' = "snd (validate lib checked now req ?v)"
  have run': "snd (validate_step lib delay x run) = \<lparr>rv_validator = ?v', rv_last = now\<rparr>"
    using True by (simp add: validate_step_possible x)
  show ?thesis
  proof (cases "T + skew + delay < now")
    case False
    with later assms(2) obtain t where t: "map_of (va_entries ?v) nonce = Some t" "T - skew \<le> t" "t \<le> rv_last run"
      by (auto simp: used_up_def)
    have "now - va_ttl ?v \<le> t" using False t(2) assms(1,3) by (simp add: guarded_def)
    moreover have "t \<le> now" using t(3) later by simp
    ultimately have "\<exists>t'. map_of (va_entries ?v') nonce = Some t' \<and> t \<le> t' \<and> t' \<le> now"
      using validate_state [of lib checked now req ?v] kept_entry [of ?v nonce t now] t(1) assms(1)
      by (elim disjE) (auto simp: guarded_def)
    then obtain t' where "map_of (va_entries ?v') nonce = Some t'" "t \<le> t'" "t' \<le> now" by blast
    then show ?thesis using t(2) by (auto simp: used_up_def run')
  qed (simp add: used_up_def run')
qed (use assms(2) in \<open>simp add: validate_step_def\<close>)

lemma accepted_step:
  assumes "guarded skew ttl run" and "cl_parse_date lib date = Some T" and "2 * skew + delay \<le> ttl" and "0 \<le> skew" and "skew < 2 ^ 63 - 1"
    and "accepted_as date nonce x (fst (validate_step lib delay x run))"
  shows "\<not> used_up T skew delay nonce run \<and> used_up T skew delay nonce (snd (validate_step lib delay x run))"
proof -
  obtain checked now req where x: "x = (checked, now, req)" using prod_cases3 by blast
  let ?v = "rv_validator run"
  have time: "rv_last run \<le> now" "checked \<le> now" "now \<le> checked + delay" and ok: "fst (validate lib checked now req ?v) = None"
    and names: "trim (hq_date req) = date" "trim (hq_nonce req) = nonce"
    using assms(6) by (auto simp: accepted_as_def validate_step_def possible_def x split: if_splits prod.splits)
  from ok obtain rt where rem: "validate lib checked now req ?v = remember now nonce ?v"
    and rt: "cl_parse_date lib date = Some rt" "time_sub rt checked \<le> va_skew ?v" "- va_skew ?v \<le> time_sub rt checked"
    using names by (cases rule: validate_cases [of lib checked now req ?v]) auto
  have skew: "va_skew ?v = skew" "va_ttl ?v = ttl" and wf: "wf_map (va_entries ?v)" using assms(1) by (simp_all add: guarded_def)
  have near: "T - skew \<le> checked" "checked \<le> T + skew"
    using within_skew [of T checked skew] rt assms(2,4,5) skew by auto
  have fresh: "case map_of (va_entries ?v) nonce of None \<Rightarrow> True | Some t \<Rightarrow> t < now - ttl"
    and new: "map_of (va_entries (snd (remember now nonce ?v))) nonce = Some now"
    using remember_entry [OF wf ok [unfolded rem]] unfolding skew by auto
  have "snd (validate_step lib delay x run) = \<lparr>rv_validator = snd (remember now nonce ?v), rv_last = now\<rparr>"
    using time rem by (simp add: validate_step_def possible_def x split: prod.split)
  then have "used_up T skew delay nonce (snd (validate_step lib delay x run))"
    using new near(1) time(2) by (simp add: used_up_def)
  moreover have "\<not> used_up T skew delay nonce run"
    using fresh time near assms(3) by (auto simp: used_up_def)
  ultimately show ?thesis by blast
qed

lemma request_single_use:
  assumes "cl_parse_date lib date = Some T" and "2 * skew + delay \<le> ttl" and "0 \<le> skew" and "skew < 2 ^ 63 - 1"
  shows "single_use (validate_step lib delay) (guarded skew ttl) (used_up T skew delay nonce) (accepted_as date nonce)"
proof unfold_locales
  fix run x
  assume g: "guarded skew ttl run"
  then show "guarded skew ttl (snd (validate_step lib delay x run))" by (rule guarded_step)
  show "used_up T skew delay nonce run \<Longrightarrow> used_up T skew delay nonce (snd (validate_step lib delay x run))"
    by (rule used_up_step [OF g _ assms(2)])
  show "accepted_as date nonce x (fst (validate_step lib delay x run)) \<Longrightarrow>
      \<not> used_up T skew delay nonce run \<and> used_up T skew delay nonce (snd (validate_step lib delay x run))"
    by (rule accepted_step [OF g assms])
qed


text \<open>C7: A signed request is accepted at most once. If a body takes at most \<open>delay\<close> to arrive and two widths of the
  date window plus that delay fit in the life of a nonce, no history of requests, in whatever order their dates
  were checked, has two acceptances of the same date and nonce.\<close>

theorem signed_request_single_use:
  assumes "cl_parse_date lib date = Some request_time" and "2 * va_skew v + delay \<le> va_ttl v"
    and "0 \<le> va_skew v" and "va_skew v < 2 ^ 63 - 1" and "wf_map (va_entries v)"
  shows "length (filter (\<lambda>xr. accepted_as date nonce (fst xr) (snd xr))
    (fst (run_all (validate_step lib delay) steps \<lparr>rv_validator = v, rv_last = start\<rparr>))) \<le> 1"
  by (rule single_use.at_most_once [OF request_single_use [OF assms(1-4)]]) (simp add: guarded_def assms(5))

definition auth_crypto :: crypto_lib where
  "auth_crypto = \<lparr>cl_parse_date = (\<lambda>_. Some 0), cl_sha256_hex = (\<lambda>_. []), cl_hmac = (\<lambda>_ _. replicate 32 CHR ''s''), cl_b64_decode = Some\<rparr>"

definition sample_validator :: validator where
  "sample_validator = \<lparr>va_key = ''k'', va_skew = default_skew, va_max_body = default_max_body, va_ttl = default_nonce_ttl, va_entries = []\<rparr>"

definition signed_sample :: http_request where
  "signed_sample = \<lparr>hq_date = ''1970-01-01T00:00:00Z'', hq_nonce = replicate 32 CHR ''a'',
     hq_authorization = authorization_prefix @ replicate 32 CHR ''s'', hq_method = ''POST'', hq_url = None, hq_body = NoBody\<rparr>"

lemma signed_request_single_use_witness:
  "length (filter (\<lambda>xr. accepted_as ''1970-01-01T00:00:00Z'' (replicate 32 CHR ''a'') (fst xr) (snd xr))
    (fst (run_all (validate_step auth_crypto (180 * second))
      [(0, second, signed_sample), (2 * second, 170 * second, signed_sample)] \<lparr>rv_validator = sample_validator, rv_last = 0\<rparr>))) \<le> 1"
  by (rule signed_request_single_use [of _ _ 0])
    (simp_all add: auth_crypto_def sample_validator_def default_skew_def default_nonce_ttl_def minute_def second_def)



end
