(* ===== verification/Versions.thy ===== *)
theory Versions
  imports AuditLog
begin

text \<open>
  Signed upgrades: \<^verbatim>\<open>internal/release\<close>. Versions and their order (\<^verbatim>\<open>versions.go\<close>), the pinned keys
  (\<^verbatim>\<open>keys.go\<close>), the two signature checks (\<^verbatim>\<open>verify.go\<close>), the artifact names (\<^verbatim>\<open>download.go\<close>), the
  choice of the archive entry (\<^verbatim>\<open>install.go\<close>) and the whole upgrade (\<^verbatim>\<open>upgrade.go\<close>). Ed25519, the
  downloads, the archive reader and the file system are parameters.
\<close>

section \<open>Versions\<close>

record semver =
  sv_major :: int
  sv_minor :: int
  sv_patch :: int
  sv_prerelease :: string

datatype version_error = EmptyVersion | NotThreeParts string | BadComponent string nat

definition trim_v :: "string \<Rightarrow> string" where
  "trim_v s = (case s of c # cs \<Rightarrow> if c = CHR ''v'' then cs else s | [] \<Rightarrow> [])"

definition component :: "string \<Rightarrow> nat \<Rightarrow> string \<Rightarrow> version_error + int" where
  "component s i part =
     (case parse_int part of None \<Rightarrow> Inl (BadComponent s i) | Some n \<Rightarrow> if n < 0 then Inl (BadComponent s i) else Inr n)"

definition parse_semver :: "string \<Rightarrow> version_error + semver" where
  "parse_semver s =
     (let trimmed = trim_v (trim s) in
      if trimmed = [] then Inl EmptyVersion
      else
        let plain = (case cut_at CHR ''+'' trimmed of None \<Rightarrow> trimmed | Some (a, _) \<Rightarrow> a);
            (core, pre) = (case cut_at CHR ''-'' plain of None \<Rightarrow> (plain, []) | Some (a, b) \<Rightarrow> (a, b))
        in (case split_at CHR ''.'' core of
              [a, b, c] \<Rightarrow>
                bind_r (component s 0 a) (\<lambda>major. bind_r (component s 1 b) (\<lambda>minor. bind_r (component s 2 c) (\<lambda>patch.
                  Inr \<lparr>sv_major = major, sv_minor = minor, sv_patch = patch, sv_prerelease = pre\<rparr>)))
            | _ \<Rightarrow> Inl (NotThreeParts s)))"

definition semver_string :: "semver \<Rightarrow> string" where
  "semver_string v =
     (let core = format_int (sv_major v) @ ''.'' @ format_int (sv_minor v) @ ''.'' @ format_int (sv_patch v)
      in if sv_prerelease v \<noteq> [] then core @ ''-'' @ sv_prerelease v else core)"

definition sign_of :: "bool \<Rightarrow> int" where
  "sign_of below = (if below then - 1 else 1)"

lemma sign_of_simps [simp]: "sign_of True = - 1" "sign_of False = 1"
  by (simp_all add: sign_of_def)

definition compare_strings :: "string \<Rightarrow> string \<Rightarrow> int" where
  "compare_strings a b = (if a = b then 0 else sign_of (a < b))"

text \<open>The loop over the segments, and the comparison of the lengths after it.\<close>

fun compare_segments :: "string list \<Rightarrow> string list \<Rightarrow> int" where
  "compare_segments (a # as) (b # bs) =
     (if a = b then compare_segments as bs
      else (case (parse_int a, parse_int b) of
          (Some m, Some n) \<Rightarrow> if m \<noteq> n then sign_of (m < n) else compare_segments as bs
        | (Some _, None) \<Rightarrow> - 1
        | (None, Some _) \<Rightarrow> 1
        | (None, None) \<Rightarrow> compare_strings a b))"
| "compare_segments as bs = (if length as < length bs then - 1 else if length bs < length as then 1 else 0)"

definition compare_prerelease :: "string \<Rightarrow> string \<Rightarrow> int" where
  "compare_prerelease a b = compare_segments (split_at CHR ''.'' a) (split_at CHR ''.'' b)"

definition compare_semver :: "semver \<Rightarrow> semver \<Rightarrow> int" where
  "compare_semver a b =
     (if sv_major a \<noteq> sv_major b then sign_of (sv_major a < sv_major b)
      else if sv_minor a \<noteq> sv_minor b then sign_of (sv_minor a < sv_minor b)
      else if sv_patch a \<noteq> sv_patch b then sign_of (sv_patch a < sv_patch b)
      else if sv_prerelease a = sv_prerelease b then 0
      else if sv_prerelease a = [] then 1
      else if sv_prerelease b = [] then - 1
      else compare_prerelease (sv_prerelease a) (sv_prerelease b))"

datatype upgrade_refusal =
    CurrentVersion version_error
  | TargetVersion version_error
  | AlreadyAt string
  | OlderThan string string

definition check_upgrade :: "string \<Rightarrow> string \<Rightarrow> upgrade_refusal option" where
  "check_upgrade current_raw target_raw =
     (case parse_semver current_raw of
        Inl e \<Rightarrow> Some (CurrentVersion e)
      | Inr current \<Rightarrow> (case parse_semver target_raw of
          Inl e \<Rightarrow> Some (TargetVersion e)
        | Inr target \<Rightarrow>
            let cmp = compare_semver current target in
            if cmp = 0 then Some (AlreadyAt (semver_string target))
            else if 0 < cmp then Some (OlderThan (semver_string target) (semver_string current))
            else None))"

section \<open>The order of versions\<close>

text \<open>The identifiers of a version in the order of their precedence; \<open>Final\<close> stands for the absent prerelease.\<close>

datatype segment = Num int | Alpha string | Final

instantiation segment :: linorder
begin

definition less_segment :: "segment \<Rightarrow> segment \<Rightarrow> bool" where
  "less_segment a b = (case (a, b) of
     (Num m, Num n) \<Rightarrow> m < n | (Num _, _) \<Rightarrow> True
   | (Alpha x, Alpha y) \<Rightarrow> x < y | (Alpha _, Final) \<Rightarrow> True
   | _ \<Rightarrow> False)"

definition less_eq_segment :: "segment \<Rightarrow> segment \<Rightarrow> bool" where
  "less_eq_segment a b \<longleftrightarrow> a = b \<or> a < b"

instance
  by standard (auto simp: less_eq_segment_def less_segment_def split: segment.splits)

end

lemma segment_less_simps [simp]:
  "Num m < Num n \<longleftrightarrow> m < n" "Num m < Alpha x" "Num m < Final" "Alpha x < Alpha y \<longleftrightarrow> x < y" "Alpha x < Final"
  "\<not> Alpha x < Num m" "\<not> Final < a"
  by (simp_all add: less_segment_def split: segment.split)

definition identifier_of :: "string \<Rightarrow> segment" where
  "identifier_of s = (case parse_int s of Some n \<Rightarrow> Num n | None \<Rightarrow> Alpha s)"

definition version_key :: "semver \<Rightarrow> segment list" where
  "version_key v = [Num (sv_major v), Num (sv_minor v), Num (sv_patch v)]
     @ (if sv_prerelease v = [] then [Final] else map identifier_of (split_at CHR ''.'' (sv_prerelease v)))"

definition compare_keys :: "'a::linorder list \<Rightarrow> 'a list \<Rightarrow> int" where
  "compare_keys a b = (if a = b then 0 else sign_of (a < b))"

lemma compare_keys_Cons: "compare_keys (x # a) (y # b) = (if x = y then compare_keys a b else sign_of (x < y))"
  by (auto simp: compare_keys_def)

lemma Nil_less_iff [simp]: "[] < (xs :: 'a :: linorder list) \<longleftrightarrow> xs \<noteq> []"
  by (cases xs) auto

lemma compare_segments_keys: "compare_segments as bs = compare_keys (map identifier_of as) (map identifier_of bs)"
proof (induction as bs rule: compare_segments.induct)
  case (1 a as b bs)
  then show ?case
    by (auto simp: compare_keys_Cons identifier_of_def compare_strings_def split: option.split)
qed (auto simp: compare_keys_def sign_of_def)

lemma compare_semver_keys: "compare_semver a b = compare_keys (version_key a) (version_key b)"
proof -
  have final: "compare_keys [Final] (map identifier_of (split_at c s)) = 1" "compare_keys (map identifier_of (split_at c s)) [Final] = - 1" for c s
    by (cases "split_at c s"; simp add: compare_keys_Cons identifier_of_def sign_of_def split: option.split)+
  show ?thesis
    by (simp add: compare_semver_def version_key_def compare_keys_Cons compare_prerelease_def compare_segments_keys final)
      (simp add: compare_keys_def)
qed

lemma check_upgrade_None:
  "check_upgrade current target = None \<longleftrightarrow>
     (\<exists>c t. parse_semver current = Inr c \<and> parse_semver target = Inr t \<and> version_key c < version_key t)"
  by (auto simp: check_upgrade_def compare_semver_keys compare_keys_def sign_of_def Let_def split: sum.split)


text \<open>C33: Versions compare by precedence. The comparison of two versions, with its loops over dotted prerelease
  identifiers, is the lexicographic comparison of their identifiers under one linear order: numbers by value and
  below words, words by bytes, a prefix below its extensions and a final release above its prereleases.\<close>

theorem compare_semver_precedence:
  "compare_semver a b = (if version_key a = version_key b then 0 else if version_key a < version_key b then - 1 else 1)
   \<and> compare_semver b a = - compare_semver a b"
  by (auto simp: compare_semver_keys compare_keys_def sign_of_def)

text \<open>C16: An installation never goes back. Along any chain of accepted upgrades, however the versions are spelled and
  whatever build metadata they carry, no later version accepts one of the earlier ones as its upgrade.\<close>

theorem upgrades_never_roll_back:
  assumes "successively (\<lambda>a b. check_upgrade a b = None) vs" and "i < j" and "j < length vs"
  shows "check_upgrade (vs ! j) (vs ! i) \<noteq> None"
proof -
  define newer where "newer = (\<lambda>a b. check_upgrade a b = None)"
  have "transp newer" unfolding newer_def transp_def check_upgrade_None by fastforce
  moreover have "successively newer vs" using assms(1) by (simp add: newer_def)
  ultimately have "sorted_wrt newer vs" by (simp add: successively_conv_sorted_wrt)
  then have "newer (vs ! i) (vs ! j)" using assms(2,3) by (simp add: sorted_wrt_iff_nth_less)
  then show ?thesis unfolding newer_def check_upgrade_None by auto
qed

lemma upgrades_never_roll_back_witness: "check_upgrade ''1.0.0'' ''v1.0.0-rc.9'' \<noteq> None"
proof -
  have "successively (\<lambda>a b. check_upgrade a b = None) [''v1.0.0-rc.9'', ''1.0.0-rc.10+build5'', ''1.0.0'']" by code_simp
  from upgrades_never_roll_back [OF this, of 0 2] show ?thesis by simp
qed

definition good_version :: "semver \<Rightarrow> bool" where
  "good_version v \<longleftrightarrow> 0 \<le> sv_major v \<and> 0 \<le> sv_minor v \<and> 0 \<le> sv_patch v \<and> sv_major v < 2 ^ 63 \<and> sv_minor v < 2 ^ 63 \<and> sv_patch v < 2 ^ 63
     \<and> visible (sv_prerelease v) \<and> CHR ''+'' \<notin> set (sv_prerelease v)"

lemma cut_at_none: "c \<notin> set a \<Longrightarrow> cut_at c a = None"
  by (induction a) auto

lemma nonneg_digits: "0 \<le> i \<Longrightarrow> c \<in> set (format_int i) \<Longrightarrow> 48 \<le> (of_char c :: nat) \<and> of_char c \<le> (57 :: nat)"
  by (auto simp: format_int_def dest: dec_nat_digits)

lemma digit_clean: "0 \<le> i \<Longrightarrow> CHR ''.'' \<notin> set (format_int i) \<and> CHR ''+'' \<notin> set (format_int i) \<and> CHR ''-'' \<notin> set (format_int i)
    \<and> format_int i \<noteq> [] \<and> hd (format_int i) \<noteq> CHR ''v''"
proof -
  assume "0 \<le> i"
  note d = nonneg_digits [OF this]
  have ne: "format_int i \<noteq> []" by (simp add: format_int_def)
  from d [OF hd_in_set [OF ne]] d [of "CHR ''.''"] d [of "CHR ''+''"] d [of "CHR ''-''"] ne show ?thesis by auto
qed

lemma component_format: "0 \<le> i \<Longrightarrow> i < 2 ^ 63 \<Longrightarrow> component s k (format_int i) = Inr i"
  by (simp add: component_def parse_format_int int64_range_def)

text \<open>Printing and parsing a version are inverse, for components that fit an \<open>int\<close> and a visible prerelease
  without build metadata.\<close>

theorem version_round_trip:
  assumes "good_version v"
  shows "parse_semver (semver_string v) = Inr v"
proof -
  let ?a = "format_int (sv_major v)" and ?b = "format_int (sv_minor v)" and ?c = "format_int (sv_patch v)" and ?p = "sv_prerelease v"
  let ?core = "?a @ ''.'' @ ?b @ ''.'' @ ?c"
  note g = assms [unfolded good_version_def]
  note da = digit_clean [of "sv_major v"] and db = digit_clean [of "sv_minor v"] and dc = digit_clean [of "sv_patch v"]
  have vis: "visible (semver_string v)" using g by (simp add: semver_string_def Let_def)
  obtain x xs where x: "?a = x # xs" using g da by (cases ?a) auto
  have tv: "trim_v (semver_string v) = semver_string v" and ne: "semver_string v \<noteq> []"
    using g da x by (auto simp: trim_v_def semver_string_def Let_def)
  have plus: "CHR ''+'' \<notin> set (semver_string v)" using g da db dc by (auto simp: semver_string_def Let_def)
  have parts: "split_at CHR ''.'' ?core = [?a, ?b, ?c]"
    using g da db dc by (simp add: split_at_append split_at_single)
  have dash: "CHR ''-'' \<notin> set ?core" using g da db dc by auto
  have cut: "(case cut_at CHR ''-'' (semver_string v) of None \<Rightarrow> (semver_string v, []) | Some (a, b) \<Rightarrow> (a, b)) = (?core, ?p)"
    using dash cut_at_none [OF dash] cut_at_append [OF dash, of ?p] by (simp add: semver_string_def Let_def)
  show ?thesis
    unfolding parse_semver_def Let_def trim_visible [OF vis] tv cut_at_none [OF plus] option.case cut prod.case parts
    using ne g by (simp add: component_format)
qed

lemma version_round_trip_witness:
  "parse_semver (semver_string \<lparr>sv_major = 1, sv_minor = 0, sv_patch = 12, sv_prerelease = ''rc.1''\<rparr>)
     = Inr \<lparr>sv_major = 1, sv_minor = 0, sv_patch = 12, sv_prerelease = ''rc.1''\<rparr>"
  by (rule version_round_trip) (simp add: good_version_def)

end
