(* ===== verification/Release.thy ===== *)
theory Release
  imports Versions
begin

text \<open>
  Signed upgrades, \<^verbatim>\<open>internal/release\<close>: the pinned keys (\<^verbatim>\<open>keys.go\<close>), the two signature checks
  (\<^verbatim>\<open>verify.go\<close>), the artifact names and the download limits (\<^verbatim>\<open>download.go\<close>), the choice of the archive
  entry and the replacement (\<^verbatim>\<open>install.go\<close>) and the whole upgrade (\<^verbatim>\<open>upgrade.go\<close>). Ed25519 on keys of the
  right length, the transport and the archive reader are parameters; the file system is a map from paths to
  contents, and what each of its calls answers is an argument.
\<close>

section \<open>Keys\<close>

record release_lib =
  rl_verify :: "string \<Rightarrow> string \<Rightarrow> string \<Rightarrow> bool"

datatype extract_error = GzipFailed | TarFailed | UnsafeEntry string | CreateFailed | CopyFailed | CloseFailed | ChmodFailed | TarballEmpty

datatype release_error =
    NoPinnedKeys
  | UntrustedKeys
  | MalformedKeys nat
  | NoKeysListed
  | KeysTooLong
  | UntrustedTarball
  | KeyLengthPanic
  | TargetPathRequired
  | TargetVersionRequired
  | Refused upgrade_refusal
  | DownloadFailed string
  | RandomSuffix
  | ExtractFailed extract_error
  | ReplaceFailed

definition hex_value :: "char \<Rightarrow> nat option" where
  "hex_value c = (let n = of_char c :: nat in
     if 48 \<le> n \<and> n \<le> 57 then Some (n - 48) else if 97 \<le> n \<and> n \<le> 102 then Some (n - 87)
     else if 65 \<le> n \<and> n \<le> 70 then Some (n - 55) else None)"

fun hex_decode :: "string \<Rightarrow> string option" where
  "hex_decode [] = Some []"
| "hex_decode [c] = None"
| "hex_decode (c # d # cs) =
     (case (hex_value c, hex_value d, hex_decode cs) of
        (Some h, Some l, Some rest) \<Rightarrow> Some (char_of (16 * h + l) # rest) | _ \<Rightarrow> None)"

definition hex_encode :: "string \<Rightarrow> string" where
  "hex_encode s = concat (map (\<lambda>c. [''0123456789abcdef'' ! (of_char c div 16), ''0123456789abcdef'' ! (of_char c mod 16)]) s)"

definition pinned_public_keys :: "string \<Rightarrow> string list" where
  "pinned_public_keys csv =
     (if trim csv = [] then []
      else List.map_filter (\<lambda>part. if trim part = [] then None
             else (case hex_decode (trim part) of None \<Rightarrow> None | Some raw \<Rightarrow> if length raw \<noteq> 32 then None else Some raw))
           (split_at CHR '','' csv))"

definition starts_with_space :: "string \<Rightarrow> bool" where
  "starts_with_space s = list_ex (\<lambda>p. prefix p s) space_encodings"

text \<open>The first of the fields of a line that does not begin with a space.\<close>

fun first_field :: "string \<Rightarrow> string" where
  "first_field [] = []"
| "first_field (c # cs) = (if starts_with_space (c # cs) then [] else c # first_field cs)"

fun parse_key_lines :: "nat \<Rightarrow> string list \<Rightarrow> release_error + string list" where
  "parse_key_lines n [] = Inr []"
| "parse_key_lines n (l # ls) =
     (let line = trim l in
      if line = [] \<or> prefix ''#'' line then parse_key_lines (Suc n) ls
      else (case hex_decode (first_field line) of
          None \<Rightarrow> Inl (MalformedKeys n)
        | Some raw \<Rightarrow> if length raw \<noteq> 32 then Inl (MalformedKeys n)
                      else bind_r (parse_key_lines (Suc n) ls) (\<lambda>ks. Inr (raw # ks))))"

definition max_key_line :: nat where
  "max_key_line = 64 * 1024"

definition parse_keys :: "string \<Rightarrow> release_error + string list" where
  "parse_keys data =
     (case scan_lines max_key_line data of
        (ls, fits) \<Rightarrow> bind_r (parse_key_lines 1 ls) (\<lambda>ks. if fits then Inr ks else Inl KeysTooLong))"

section \<open>Signatures\<close>

definition verify_any :: "release_lib \<Rightarrow> string list \<Rightarrow> string \<Rightarrow> string \<Rightarrow> bool" where
  "verify_any lib keys msg sig = list_ex (\<lambda>k. length k = 32 \<and> rl_verify lib k msg sig) keys"

definition verify_keys :: "release_lib \<Rightarrow> string \<Rightarrow> string \<Rightarrow> string list \<Rightarrow> release_error + string list" where
  "verify_keys lib keys_file keys_sig pinned =
     (if pinned = [] then Inl NoPinnedKeys
      else if length keys_sig \<noteq> 64 then Inl UntrustedKeys
      else if \<not> verify_any lib pinned keys_file keys_sig then Inl UntrustedKeys
      else bind_r (parse_keys keys_file) (\<lambda>keys. if keys = [] then Inl NoKeysListed else Inr keys))"

text \<open>\<open>ed25519.Verify\<close> panics on a key of another length, and this loop does not check it.\<close>

fun signer :: "release_lib \<Rightarrow> string \<Rightarrow> string \<Rightarrow> string list \<Rightarrow> release_error + string" where
  "signer lib tarball sig [] = Inl UntrustedTarball"
| "signer lib tarball sig (k # ks) =
     (if length k \<noteq> 32 then Inl KeyLengthPanic
      else if rl_verify lib k tarball sig then Inr (hex_encode k) else signer lib tarball sig ks)"

definition verify_tarball :: "release_lib \<Rightarrow> string \<Rightarrow> string \<Rightarrow> string list \<Rightarrow> release_error + string" where
  "verify_tarball lib tarball sig trusted =
     (if length sig \<noteq> 64 then Inl UntrustedTarball else signer lib tarball sig trusted)"

section \<open>Artifacts\<close>

definition tarball_name :: "string \<Rightarrow> string \<Rightarrow> string \<Rightarrow> string" where
  "tarball_name version goos goarch = ''hasp-v'' @ trim_v version @ ''-'' @ goos @ ''-'' @ goarch @ ''.tar.gz''"

definition keys_name :: "string \<Rightarrow> string" where
  "keys_name version = ''KEYS-v'' @ trim_v version"

definition trim_slash :: "string \<Rightarrow> string" where
  "trim_slash s = (if s \<noteq> [] \<and> last s = CHR ''/'' then butlast s else s)"

definition artifact_urls :: "string \<Rightarrow> string \<Rightarrow> string \<Rightarrow> string \<Rightarrow> string \<times> string \<times> string \<times> string" where
  "artifact_urls base version goos goarch =
     (let pre = trim_slash base @ ''/'' @ (''v'' @ trim_v version) @ ''/'';
          tb = pre @ tarball_name version goos goarch; ks = pre @ keys_name version
      in (tb, tb @ ''.sig'', ks, ks @ ''.sig''))"

definition platform_binary_name :: "string \<Rightarrow> string" where
  "platform_binary_name goos = (if goos = ''windows'' then ''hasp.exe'' else ''hasp'')"

definition max_tarball_bytes :: nat where
  "max_tarball_bytes = 256 * 1024 * 1024"

definition max_small_artifact_bytes :: nat where
  "max_small_artifact_bytes = 64 * 1024"

datatype http_error = BadUrl | UntrustedHost | TransportFailed | BadStatus nat | BodyFailed | OverCap

text \<open>\<open>parsed\<close> is the scheme and host of the URL, \<open>response\<close> the status and the body.\<close>

definition default_http_get ::
    "(string \<Rightarrow> (string \<times> string) option) \<Rightarrow> (string \<Rightarrow> (nat \<times> string option) option) \<Rightarrow> string \<Rightarrow> nat \<Rightarrow> http_error + string" where
  "default_http_get parsed response url max_bytes =
     (case parsed url of
        None \<Rightarrow> Inl BadUrl
      | Some (scheme, host) \<Rightarrow>
          if scheme \<noteq> ''https'' then Inl UntrustedHost
          else if host \<noteq> ''github.com'' then Inl UntrustedHost
          else (case response url of
              None \<Rightarrow> Inl TransportFailed
            | Some (status, body) \<Rightarrow>
                if status \<noteq> 200 then Inl (BadStatus status)
                else (case body of
                    None \<Rightarrow> Inl BodyFailed
                  | Some bytes \<Rightarrow> let got = take (max_bytes + 1) bytes in if max_bytes < length got then Inl OverCap else Inr got)))"

section \<open>Installation\<close>

record tar_entry =
  tx_name :: string
  tx_regular :: bool
  tx_size :: int
  tx_content :: string

text \<open>The entries the archive reader delivers, and whether it ends without an error; \<open>None\<close>: no gzip stream.\<close>

type_synonym archive = "(tar_entry list \<times> bool) option"

record install_io =
  ii_create :: bool
  ii_copy :: bool
  ii_close :: bool
  ii_chmod :: bool
  ii_rename :: bool

definition max_binary_size :: int where
  "max_binary_size = 256 * 1024 * 1024"

definition path_base :: "string \<Rightarrow> string" where
  "path_base p =
     (let stripped = rev (dropWhile (\<lambda>c. c = CHR ''/'') (rev p)) in
      if p = [] then ''.'' else if stripped = [] then ''/'' else last (split_at CHR ''/'' stripped))"

definition path_dir :: "string \<Rightarrow> string" where
  "path_dir p = path_clean (rev (dropWhile (\<lambda>c. c \<noteq> CHR ''/'') (rev p)))"

fun extract_entries ::
    "install_io \<Rightarrow> string \<Rightarrow> string \<Rightarrow> bool \<Rightarrow> tar_entry list \<Rightarrow> string gomap \<Rightarrow> extract_error option \<times> string gomap" where
  "extract_entries io binary dst ends [] fs = (Some (if ends then TarballEmpty else TarFailed), fs)"
| "extract_entries io binary dst ends (e # es) fs =
     (if path_base (tx_name e) \<noteq> binary then extract_entries io binary dst ends es fs
      else if \<not> tx_regular e then (Some (UnsafeEntry (tx_name e)), fs)
      else if tx_size e \<le> 0 \<or> max_binary_size < tx_size e then (Some (UnsafeEntry (tx_name e)), fs)
      else if sublist ''..'' (tx_name e) then (Some (UnsafeEntry (tx_name e)), fs)
      else if \<not> ii_create io then (Some CreateFailed, fs)
      else if \<not> ii_copy io \<or> length (tx_content e) < nat (tx_size e) then (Some CopyFailed, del dst fs)
      else if \<not> ii_close io then (Some CloseFailed, del dst fs)
      else if \<not> ii_chmod io then (Some ChmodFailed, del dst fs)
      else (None, put dst (take (nat (tx_size e)) (tx_content e)) fs))"

definition extract_binary :: "install_io \<Rightarrow> archive \<Rightarrow> string \<Rightarrow> string \<Rightarrow> string gomap \<Rightarrow> extract_error option \<times> string gomap" where
  "extract_binary io ar binary dst fs =
     (case ar of None \<Rightarrow> (Some GzipFailed, fs) | Some (entries, ends) \<Rightarrow> extract_entries io binary dst ends entries fs)"

definition atomic_replace :: "install_io \<Rightarrow> string \<Rightarrow> string \<Rightarrow> string gomap \<Rightarrow> bool \<times> string gomap" where
  "atomic_replace io staged target fs =
     (if path_dir staged \<noteq> path_dir target then (False, fs)
      else if \<not> ii_rename io then (False, fs)
      else (case map_of fs staged of None \<Rightarrow> (False, fs) | Some content \<Rightarrow> (True, put target content (del staged fs))))"

definition staging_path :: "string option \<Rightarrow> string \<Rightarrow> release_error + string" where
  "staging_path rnd target = (case rnd of None \<Rightarrow> Inl RandomSuffix | Some r \<Rightarrow> Inr (target @ ''.upgrade-'' @ hex_encode r))"

section \<open>The upgrade\<close>

record upgrade_options =
  uo_current_version :: string
  uo_target_version :: string
  uo_target_path :: string
  uo_url_base :: string
  uo_goos :: string
  uo_goarch :: string
  uo_pinned :: "string list option"

record upgrade_report =
  ur_from_version :: string
  ur_to_version :: string
  ur_signer_key :: string
  ur_staged_at :: string
  ur_installed_at :: string

definition default_release_url_base :: string where
  "default_release_url_base = ''https://github.com/gethasp/hasp/releases/download''"

definition with_defaults :: "string \<Rightarrow> string \<Rightarrow> upgrade_options \<Rightarrow> upgrade_options" where
  "with_defaults host_goos host_goarch opts =
     opts\<lparr>uo_url_base := (if uo_url_base opts = [] then default_release_url_base else uo_url_base opts),
          uo_goos := (if uo_goos opts = [] then host_goos else uo_goos opts),
          uo_goarch := (if uo_goarch opts = [] then host_goarch else uo_goarch opts)\<rparr>"

definition fetch :: "(string \<Rightarrow> nat \<Rightarrow> string option) \<Rightarrow> string \<Rightarrow> nat \<Rightarrow> release_error + string" where
  "fetch get url cap = (case get url cap of None \<Rightarrow> Inl (DownloadFailed url) | Some bytes \<Rightarrow> Inr bytes)"

text \<open>The pinned keys in force: those of the options, or those built in.\<close>

definition pins :: "string \<Rightarrow> upgrade_options \<Rightarrow> string list" where
  "pins csv opts = (case uo_pinned opts of None \<Rightarrow> pinned_public_keys csv | Some ks \<Rightarrow> ks)"

text \<open>The checks before anything is written: the tarball and the fingerprint of its signer.\<close>

definition verified_tarball ::
    "release_lib \<Rightarrow> string \<Rightarrow> (string \<Rightarrow> nat \<Rightarrow> string option) \<Rightarrow> upgrade_options \<Rightarrow> release_error + string \<times> string" where
  "verified_tarball lib csv get opts =
     (if uo_target_path opts = [] then Inl TargetPathRequired
      else if uo_target_version opts = [] then Inl TargetVersionRequired
      else if pins csv opts = [] then Inl NoPinnedKeys
      else (case check_upgrade (uo_current_version opts) (uo_target_version opts) of
          Some e \<Rightarrow> Inl (Refused e)
        | None \<Rightarrow>
            (case artifact_urls (uo_url_base opts) (uo_target_version opts) (uo_goos opts) (uo_goarch opts) of
               (tb_url, tb_sig_url, keys_url, keys_sig_url) \<Rightarrow>
                 bind_r (fetch get keys_url max_small_artifact_bytes) (\<lambda>keys_file.
                 bind_r (fetch get keys_sig_url max_small_artifact_bytes) (\<lambda>keys_sig.
                 bind_r (verify_keys lib keys_file keys_sig (pins csv opts)) (\<lambda>trusted.
                 bind_r (fetch get tb_url max_tarball_bytes) (\<lambda>tarball.
                 bind_r (fetch get tb_sig_url max_small_artifact_bytes) (\<lambda>tarball_sig.
                 bind_r (verify_tarball lib tarball tarball_sig trusted) (\<lambda>fp. Inr (tarball, fp))))))))))"

definition upgrade ::
    "release_lib \<Rightarrow> string \<Rightarrow> (string \<Rightarrow> nat \<Rightarrow> string option) \<Rightarrow> (string \<Rightarrow> archive) \<Rightarrow> string \<Rightarrow> string \<Rightarrow> string option \<Rightarrow> install_io
      \<Rightarrow> upgrade_options \<Rightarrow> string gomap \<Rightarrow> (release_error + upgrade_report) \<times> string gomap" where
  "upgrade lib csv get unpack host_goos host_goarch rnd io opts fs =
     (case verified_tarball lib csv get (with_defaults host_goos host_goarch opts) of
        Inl e \<Rightarrow> (Inl e, fs)
      | Inr (tarball, fp) \<Rightarrow>
          (case staging_path rnd (uo_target_path opts) of
             Inl e \<Rightarrow> (Inl e, fs)
           | Inr staged \<Rightarrow>
               (case extract_binary io (unpack tarball) (platform_binary_name host_goos) staged fs of
                  (Some e, fs1) \<Rightarrow> (Inl (ExtractFailed e), fs1)
                | (None, fs1) \<Rightarrow>
                    (case atomic_replace io staged (uo_target_path opts) fs1 of
                       (False, fs2) \<Rightarrow> (Inl ReplaceFailed, fs2)
                     | (True, fs2) \<Rightarrow>
                         (Inr \<lparr>ur_from_version = uo_current_version opts, ur_to_version = uo_target_version opts, ur_signer_key = fp,
                               ur_staged_at = staged, ur_installed_at = uo_target_path opts\<rparr>, fs2)))))"

section \<open>What verification gives\<close>

lemma parse_key_lines_length: "parse_key_lines n ls = Inr ks \<Longrightarrow> \<forall>k\<in>set ks. length k = 32"
proof (induction n ls arbitrary: ks rule: parse_key_lines.induct)
  case (2 n l ls)
  show ?case
  proof (cases "trim l = [] \<or> prefix ''#'' (trim l)")
    case True
    with 2(1) [OF refl True] 2(3) show ?thesis by simp
  next
    case False
    with 2(3) obtain raw rest where "hex_decode (first_field (trim l)) = Some raw" "length raw = 32"
      "parse_key_lines (Suc n) ls = Inr rest" "ks = raw # rest"
      by (auto simp: Let_def split: option.splits if_splits elim!: bind_r_InrE)
    with 2(2) [OF refl False] show ?thesis by auto
  qed
qed simp

lemma verify_keys_Inr:
  assumes "verify_keys lib keys_file keys_sig pinned = Inr trusted"
  shows "(\<exists>root\<in>set pinned. length root = 32 \<and> rl_verify lib root keys_file keys_sig) \<and> parse_keys keys_file = Inr trusted
    \<and> (\<forall>k\<in>set trusted. length k = 32)"
proof -
  have p: "parse_keys keys_file = Inr trusted" and v: "verify_any lib pinned keys_file keys_sig"
    using assms by (auto simp: verify_keys_def split: if_splits elim!: bind_r_InrE)
  from p obtain ls where "parse_key_lines 1 ls = Inr trusted"
    by (auto simp: parse_keys_def split: prod.splits if_splits elim!: bind_r_InrE)
  with v p parse_key_lines_length show ?thesis by (auto simp: verify_any_def list_ex_iff)
qed

lemma signer_Inr: "signer lib tarball sig ks = Inr fp \<Longrightarrow> \<exists>k\<in>set ks. rl_verify lib k tarball sig \<and> fp = hex_encode k"
  by (induction ks) (auto split: if_splits)

lemma signer_no_panic: "\<forall>k\<in>set ks. length k = 32 \<Longrightarrow> signer lib tarball sig ks \<noteq> Inl KeyLengthPanic"
  by (induction ks) auto

text \<open>Every tarball that passes hangs on a pinned key.\<close>

definition trusted_release :: "release_lib \<Rightarrow> string list \<Rightarrow> string \<Rightarrow> string \<Rightarrow> bool" where
  "trusted_release lib pinned tarball fp \<longleftrightarrow>
     (\<exists>keys_file keys_sig ks sig. (\<exists>root\<in>set pinned. length root = 32 \<and> rl_verify lib root keys_file keys_sig)
        \<and> parse_keys keys_file = Inr ks \<and> (\<exists>k\<in>set ks. rl_verify lib k tarball sig \<and> fp = hex_encode k))"

lemma verified_tarball_Inr:
  assumes "verified_tarball lib csv get opts = Inr (tarball, fp)"
  shows "trusted_release lib (pins csv opts) tarball fp \<and> check_upgrade (uo_current_version opts) (uo_target_version opts) = None"
proof -
  have checked: "check_upgrade (uo_current_version opts) (uo_target_version opts) = None"
    using assms by (auto simp: verified_tarball_def split: if_splits option.splits)
  moreover obtain keys_file keys_sig trusted sig where "verify_keys lib keys_file keys_sig (pins csv opts) = Inr trusted"
    "verify_tarball lib tarball sig trusted = Inr fp"
    using assms checked by (auto simp: verified_tarball_def split: if_splits prod.splits elim!: bind_r_InrE)
  ultimately show ?thesis
    using verify_keys_Inr signer_Inr unfolding trusted_release_def by (fastforce simp: verify_tarball_def split: if_splits)
qed

lemma verified_tarball_no_panic: "verified_tarball lib csv get opts \<noteq> Inl KeyLengthPanic"
proof -
  have tb: "verify_keys lib kf sg ps = Inr trusted \<Longrightarrow> verify_tarball lib tarball sig trusted \<noteq> Inl KeyLengthPanic" for kf sg ps trusted tarball sig
    using verify_keys_Inr [of lib kf sg ps trusted] signer_no_panic [of trusted lib tarball sig] by (auto simp: verify_tarball_def)
  have pk: "parse_key_lines n ls \<noteq> Inl KeyLengthPanic" for n ls
    by (induction n ls rule: parse_key_lines.induct) (auto simp: Let_def bind_r_def split: option.split sum.split)
  have vk: "verify_keys lib kf sg ps \<noteq> Inl KeyLengthPanic" for kf sg ps
    using pk by (auto simp: verify_keys_def parse_keys_def bind_r_def split: sum.splits prod.splits if_splits)
  show ?thesis
    using tb vk by (auto simp: verified_tarball_def fetch_def bind_r_def split: sum.split option.split prod.split)
qed


lemma with_defaults_fields [simp]:
  "uo_current_version (with_defaults a b opts) = uo_current_version opts" "uo_target_version (with_defaults a b opts) = uo_target_version opts"
  "uo_target_path (with_defaults a b opts) = uo_target_path opts" "pins csv (with_defaults a b opts) = pins csv opts"
  by (simp_all add: with_defaults_def pins_def)

lemma extract_entries_other: "p \<noteq> dst \<Longrightarrow> map_of (snd (extract_entries io binary dst ends es fs)) p = map_of fs p"
  by (induction es) auto

text \<open>A file cut out of an archive for a binary of this name.\<close>

definition cut_from :: "tar_entry list \<Rightarrow> string \<Rightarrow> string \<Rightarrow> bool" where
  "cut_from es binary content \<longleftrightarrow> (\<exists>e\<in>set es. path_base (tx_name e) = binary \<and> tx_regular e \<and> \<not> sublist ''..'' (tx_name e)
     \<and> 0 < tx_size e \<and> tx_size e \<le> max_binary_size \<and> content = take (nat (tx_size e)) (tx_content e))"

lemma extract_entries_done:
  "extract_entries io binary dst ends es fs = (None, fs') \<Longrightarrow> \<exists>content. map_of fs' dst = Some content \<and> cut_from es binary content"
proof (induction es)
  case (Cons e es)
  show ?case
  proof (cases "path_base (tx_name e) = binary")
    case True
    with Cons.prems have "fs' = put dst (take (nat (tx_size e)) (tx_content e)) fs" "tx_regular e" "\<not> sublist ''..'' (tx_name e)"
      "0 < tx_size e" "tx_size e \<le> max_binary_size"
      by (auto split: if_splits)
    with True show ?thesis by (auto simp: cut_from_def)
  next
    case False
    with Cons show ?thesis by (fastforce simp: cut_from_def)
  qed
qed simp


end
