(* ===== verification/Spec2Isabelle.thy ===== *)
theory Spec2Isabelle
  imports Leases Approvals Sessions Config Policy Vault Grants EnvMap Documents Manifest Items AuditLog Lifecycle Redactor Broker Execute Auth Release
begin

text \<open>HASP verification.\<close>

end
